theory Spec2Isabelle
  imports Main "HOL-Library.Sublist"
begin

section \<open>Python values used by the scraper\<close>

text \<open>
  A Python \<open>str\<close> is a sequence of code points. For the cleanup functions, the request
  filter and the extraction the model uses \<^typ>\<open>string\<close>, and reads a \<^typ>\<open>char\<close> as the
  code point of the same number: these strings are the Python strings over
  U+0000 .. U+00FF. On these the library functions below are written out as CPython
  computes them. The serialization is modelled on all Python strings, as lists of
  code points.

  Exceptions are values: a function that may raise returns \<open>error + 'a\<close>, and \<open>Inl\<close>
  carries the exception's class. \<open>ParseError\<close> is the class of \<open>exceptions.py\<close>;
  \<open>ValueError\<close> and \<open>IndexError\<close> are the built-in ones that \<open>int\<close> and \<open>xs[0]\<close> raise.
\<close>

datatype error = ParseError | ValueError | IndexError

text \<open>\<open>xs[0]\<close>: the first element, \<open>IndexError\<close> on the empty list.\<close>

definition index0 :: "'a list \<Rightarrow> error + 'a" where
  "index0 xs = (case xs of [] \<Rightarrow> Inl IndexError | x # _ \<Rightarrow> Inr x)"

text \<open>
  \<open>str.isspace\<close> of one character, for the code points below U+0100: the ASCII white
  space, the four separators U+001C .. U+001F, NEL (U+0085) and the no-break space
  (U+00A0). \<open>str.strip()\<close> removes the characters of this class at both ends.
\<close>

definition isspace :: "char \<Rightarrow> bool" where
  "isspace c = (c \<in> set [CHR 0x09, CHR 0x0A, CHR 0x0B, CHR 0x0C, CHR 0x0D,
                           CHR 0x1C, CHR 0x1D, CHR 0x1E, CHR 0x1F, CHR 0x20,
                           CHR 0x85, CHR 0xA0])"

definition strip :: "string \<Rightarrow> string" where
  "strip s = rev (dropWhile isspace (rev (dropWhile isspace s)))"

text \<open>
  \<open>str.isdigit\<close> of one character: true for the ten decimal digits and, below U+0100,
  for the superscript digits U+00B2, U+00B3 and U+00B9 (Numeric_Type=Digit).
  \<open>str.isdecimal\<close> is true for the ten decimal digits only; they are the characters
  that \<open>int\<close> reads.
\<close>

definition isdecimal :: "char \<Rightarrow> bool" where
  "isdecimal c = (c \<in> set ''0123456789'')"

definition isdigit :: "char \<Rightarrow> bool" where
  "isdigit c = (isdecimal c \<or> c \<in> set [CHR 0xB2, CHR 0xB3, CHR 0xB9])"

definition digit_value :: "char \<Rightarrow> int" where
  "digit_value c = of_char c - 48"

text \<open>
  \<open>int(s)\<close> in base 10, on the strings the scraper passes to it: strings of
  \<open>isdigit\<close> characters, so with no sign, white space or underscore. It raises
  \<open>ValueError\<close> on the empty string and on a character that is not a decimal digit;
  otherwise the value is read digit by digit, most significant first. (CPython's
  limit on the length of the digit string, 4300 by default, is a setting of the
  interpreter and is not modelled: Python's integers are unbounded.)
\<close>

definition py_int :: "string \<Rightarrow> error + int" where
  "py_int s =
     (if s \<noteq> [] \<and> list_all isdecimal s
      then Inr (foldl (\<lambda>n c. 10 * n + digit_value c) 0 s)
      else Inl ValueError)"

text \<open>
  \<open>s.split(sep, maxsplit)\<close> for a separator of one character: cut at the first
  \<open>maxsplit\<close> occurrences of \<open>sep\<close>, from the left. The result is never empty.
\<close>

fun split_char :: "char \<Rightarrow> nat \<Rightarrow> string \<Rightarrow> string list" where
  "split_char sep 0 s = [s]"
| "split_char sep (Suc n) s =
     (if sep \<in> set s
      then takeWhile (\<lambda>c. c \<noteq> sep) s # split_char sep n (tl (dropWhile (\<lambda>c. c \<noteq> sep) s))
      else [s])"

text \<open>\<open>key in s\<close> for two strings: \<open>key\<close> occurs in \<open>s\<close> as a contiguous run.\<close>

fun starts_with :: "string \<Rightarrow> string \<Rightarrow> bool" where
  "starts_with [] s = True"
| "starts_with (k # ks) [] = False"
| "starts_with (k # ks) (c # cs) = (k = c \<and> starts_with ks cs)"

fun str_contains :: "string \<Rightarrow> string \<Rightarrow> bool" where
  "str_contains key [] = (key = [])"
| "str_contains key (c # cs) = (starts_with key (c # cs) \<or> str_contains key cs)"

section \<open>Field cleanup: \<open>clean_listing_url\<close> and \<open>convert_price_to_int\<close> (main.py)\<close>

definition ORIGIN :: string where
  "ORIGIN = ''https://www.facebook.com''"

text \<open>
  \<open>return f"https://www.facebook.com{url.split('?', 1)[0]}"\<close>. The index \<open>[0]\<close> is the
  only place where the function could raise.
\<close>

definition clean_listing_url :: "string \<Rightarrow> error + string" where
  "clean_listing_url url =
     (case index0 (split_char (CHR ''?'') 1 url) of
        Inl e \<Rightarrow> Inl e
      | Inr part \<Rightarrow> Inr (ORIGIN @ part))"

text \<open>
  \<open>price = "".join(filter(str.isdigit, price)); return int(price)\<close>.
\<close>

definition convert_price_to_int :: "string \<Rightarrow> error + int" where
  "convert_price_to_int price = py_int (filter isdigit price)"

section \<open>The request filter: \<open>blocking_intercept\<close> (block.py)\<close>

text \<open>
  Of the intercepted route the filter reads \<open>route.request.resource_type\<close> and
  \<open>route.request.url\<close>, and it ends in \<open>route.abort()\<close> or \<open>route.continue_()\<close>.
\<close>

record request =
  resource_type :: string
  url :: string

datatype decision = Abort | Continue

definition BLOCK_RESOURCE_TYPES :: "string list" where
  "BLOCK_RESOURCE_TYPES =
     [''beacon'', ''csp_report'', ''font'', ''image'', ''imageset'', ''media'',
      ''object'', ''texttrack'', ''xhr'', ''eventsource'']"

definition BLOCK_RESOURCE_NAMES :: "string list" where
  "BLOCK_RESOURCE_NAMES =
     [''adzerk'', ''analytics'', ''cdn.api.twitter'', ''doubleclick'', ''exelator'',
      ''fontawesome'', ''google'', ''google-analytics'', ''googletagmanager'']"

definition blocking_intercept :: "request \<Rightarrow> decision" where
  "blocking_intercept route =
     (if resource_type route \<in> set BLOCK_RESOURCE_TYPES then Abort
      else if list_ex (\<lambda>key. str_contains key (url route)) BLOCK_RESOURCE_NAMES then Abort
      else Continue)"

section \<open>Listings and their extraction (main.py)\<close>

text \<open>
  The dataclass \<open>Listing\<close>. Its five \<open>str\<close> fields and its optional description hold
  Python strings; \<open>'s\<close> is the type that represents them. The extraction below produces
  listings over \<open>string\<close>, the serialization takes listings over all Python strings.
\<close>

record 's listing =
  image_url :: 's
  title :: 's
  price :: int
  post_url :: 's
  location :: 's
  description :: "'s option"

text \<open>
  \<open>BeautifulSoup(html_content, "html.parser")\<close> and its selector engine are the
  library's. The model starts from what they hand to the scraper: for each selector,
  the first matching tag or \<open>None\<close> (\<open>select_one\<close>); of a tag, its attribute dictionary
  and its text. An attribute's value is a string or a list of strings (\<open>Tag.get\<close>).
  A tag is always true in a condition (\<open>Tag.__bool__\<close>).
\<close>

datatype attr_value = AttrStr string | AttrList "string list"

record tag =
  tag_attrs :: "string \<rightharpoonup> attr_value"
  tag_text :: string

type_synonym soup = "string \<Rightarrow> tag option"

definition select_one :: "soup \<Rightarrow> string \<Rightarrow> tag option" where
  "select_one soup selector = soup selector"

text \<open>\<open>locator.get(key, None) if locator else None\<close>.\<close>

definition get_attr :: "tag option \<Rightarrow> string \<Rightarrow> attr_value option" where
  "get_attr locator key = (case locator of None \<Rightarrow> None | Some t \<Rightarrow> tag_attrs t key)"

text \<open>\<open>locator.text.strip() if locator else None\<close>.\<close>

definition get_text :: "tag option \<Rightarrow> string option" where
  "get_text locator = (case locator of None \<Rightarrow> None | Some t \<Rightarrow> Some (strip (tag_text t)))"

text \<open>
  \<open>if isinstance(v, list): v = v[0]\<close>: afterwards the value is a string or \<open>None\<close>.
  (For the image the source repeats the test on the next line; on a string or
  \<open>None\<close> it changes nothing.)
\<close>

definition first_if_list :: "attr_value option \<Rightarrow> error + string option" where
  "first_if_list v =
     (case v of
        None \<Rightarrow> Inr None
      | Some (AttrStr s) \<Rightarrow> Inr (Some s)
      | Some (AttrList xs) \<Rightarrow> (case index0 xs of Inl e \<Rightarrow> Inl e | Inr x \<Rightarrow> Inr (Some x)))"

text \<open>Truth values of \<open>str | None\<close> and \<open>int | None\<close> in a condition.\<close>

definition truthy_str :: "string option \<Rightarrow> bool" where
  "truthy_str v = (case v of None \<Rightarrow> False | Some s \<Rightarrow> s \<noteq> [])"

definition truthy_int :: "int option \<Rightarrow> bool" where
  "truthy_int v = (case v of None \<Rightarrow> False | Some n \<Rightarrow> n \<noteq> 0)"

text \<open>Sequencing of statements that may raise: the first exception ends the function.\<close>

definition and_then :: "error + 'a \<Rightarrow> ('a \<Rightarrow> error + 'b) \<Rightarrow> error + 'b" where
  "and_then m f = (case m of Inl e \<Rightarrow> Inl e | Inr x \<Rightarrow> f x)"

definition IMAGE_SELECTOR :: string where
  "IMAGE_SELECTOR = ''img.xt7dq6l.xl1xv1r.x6ikm8r.x10wlt62.xh8yej3''"

definition TITLE_SELECTOR :: string where
  "TITLE_SELECTOR = ''span.x1lliihq.x6ikm8r.x10wlt62.x1n2onr6''"

definition PRICE_SELECTOR :: string where
  "PRICE_SELECTOR = ''span.x193iq5w''"

definition URL_SELECTOR :: string where
  "URL_SELECTOR = ''a.x1i10hfl''"

definition LOCATION_SELECTOR :: string where
  "LOCATION_SELECTOR = ''span.x1lliihq.x6ikm8r.x10wlt62.x1n2onr6.xlyipyv.xuxw1ft''"

text \<open>
  \<open>parse_listing_with_soup\<close>, statement by statement and in the source's order: image,
  title, price, link, location, then the test \<open>all([image, title, price, link, location])\<close>.
\<close>

definition parse_listing_with_soup :: "soup \<Rightarrow> error + string listing" where
  "parse_listing_with_soup soup =
     and_then (first_if_list (get_attr (select_one soup IMAGE_SELECTOR) ''src'')) (\<lambda>image.
     let title = get_text (select_one soup TITLE_SELECTOR);
         price_text = get_text (select_one soup PRICE_SELECTOR)
     in
     and_then (if truthy_str price_text
               then and_then (convert_price_to_int (the price_text)) (\<lambda>n. Inr (Some n))
               else Inr None) (\<lambda>price.
     and_then (first_if_list (get_attr (select_one soup URL_SELECTOR) ''href'')) (\<lambda>href.
     and_then (if truthy_str href
               then and_then (clean_listing_url (the href)) (\<lambda>u. Inr (Some u))
               else Inr None) (\<lambda>link.
     let location = get_text (select_one soup LOCATION_SELECTOR)
     in
     if \<not> (truthy_str image \<and> truthy_str title \<and> truthy_int price \<and> truthy_str link
             \<and> truthy_str location)
     then Inl ParseError
     else Inr \<lparr>image_url = the image, title = the title, price = the price,
               post_url = the link, location = the location, description = None\<rparr>))))"

text \<open>
  The loop of \<open>fetch_marketplace_listings\<close> over the fragments of the page:
  \<open>except ParseError\<close> catches that class only, any other exception leaves the loop
  and the function. \<open>parsed\<close> is the list built so far.
\<close>

fun parse_all :: "soup list \<Rightarrow> string listing list \<Rightarrow> error + string listing list" where
  "parse_all [] parsed = Inr parsed"
| "parse_all (listing_html # rest) parsed =
     (case parse_listing_with_soup listing_html of
        Inr parsed_listing \<Rightarrow> parse_all rest (parsed @ [parsed_listing])
      | Inl e \<Rightarrow> (if e = ParseError then parse_all rest parsed else Inl e))"

text \<open>
  \<open>fetch_marketplace_listings\<close> after the page is loaded: \<open>listings\<close> are the fragments
  of the page in order, \<open>num_listings\<close> of them are parsed.
\<close>

definition fetch_marketplace_listings :: "soup list \<Rightarrow> int \<Rightarrow> error + string listing list" where
  "fetch_marketplace_listings listings max_listings =
     (let num_listings =
            (if max_listings = 0 then int (length listings)
             else min (int (length listings)) max_listings)
      in parse_all (take (nat num_listings) listings) [])"

text \<open>
  A fragment with one tag for each of the five selectors, given by the image's
  \<open>src\<close>, the title's text, the price's text, the anchor's \<open>href\<close> and the location's
  text; and the same fragment without its price element.
\<close>

definition fragment :: "string \<Rightarrow> string \<Rightarrow> string \<Rightarrow> string \<Rightarrow> string \<Rightarrow> soup" where
  "fragment src title_text price_text href location_text =
     [IMAGE_SELECTOR \<mapsto> \<lparr>tag_attrs = [''src'' \<mapsto> AttrStr src], tag_text = []\<rparr>,
      TITLE_SELECTOR \<mapsto> \<lparr>tag_attrs = Map.empty, tag_text = title_text\<rparr>,
      PRICE_SELECTOR \<mapsto> \<lparr>tag_attrs = Map.empty, tag_text = price_text\<rparr>,
      URL_SELECTOR \<mapsto> \<lparr>tag_attrs = [''href'' \<mapsto> AttrStr href], tag_text = []\<rparr>,
      LOCATION_SELECTOR \<mapsto> \<lparr>tag_attrs = Map.empty, tag_text = location_text\<rparr>]"


text \<open>
  Fragments and listings used as concrete inputs below. \<open>bike\<close> and \<open>lamp\<close> are complete
  cards, \<open>chair_without_price\<close> has no price element, the price text of \<open>free_sofa\<close> has
  no digit and that of \<open>zero_priced\<close> is \<open>$0\<close>.
\<close>

definition bike :: soup where
  "bike = fragment ''https://scontent.xx.fbcdn.net/bike.jpg'' ''Mountain bike'' ''$500''
            ''/marketplace/item/42?x=1'' ''Toronto, ON''"

definition bike_listing :: "string listing" where
  "bike_listing = \<lparr>image_url = ''https://scontent.xx.fbcdn.net/bike.jpg'', title = ''Mountain bike'',
       price = 500, post_url = ''https://www.facebook.com/marketplace/item/42'',
       location = ''Toronto, ON'', description = None\<rparr>"

definition lamp :: soup where
  "lamp = fragment ''https://scontent.xx.fbcdn.net/lamp.jpg'' '' Desk lamp '' ''CA$1,250''
            ''/marketplace/item/77'' ''Ottawa, ON''"



definition free_sofa :: soup where
  "free_sofa = fragment ''https://scontent.xx.fbcdn.net/sofa.jpg'' ''Sofa'' ''Free''
            ''/marketplace/item/43?x=1'' ''Toronto, ON''"

definition zero_priced :: soup where
  "zero_priced = fragment ''https://scontent.xx.fbcdn.net/box.jpg'' ''Moving boxes'' ''$0''
            ''/marketplace/item/44?x=1'' ''Toronto, ON''"

section \<open>Serialization: \<open>listings_to_json\<close> (main.py)\<close>

text \<open>
  \<open>json.dumps([listing.__dict__ for listing in listings], indent=4)\<close>. A listing may hold
  any Python string, so in this section a string is the list of its code points: each
  below U+110000 (\<open>is_str\<close>), the surrogate code points U+D800 .. U+DFFF included, as in a
  \<open>str\<close> of Python. \<open>ascii\<close> gives the code points of a literal, and \<open>code_points\<close> the
  listing over code points of a listing that the extraction has produced. The text
  that \<open>json\<close> writes and reads is a string of this kind too.
\<close>

type_synonym unicode = "nat list"

definition is_str :: "unicode \<Rightarrow> bool" where
  "is_str s = list_all (\<lambda>c. c < 0x110000) s"

definition ascii :: "string \<Rightarrow> unicode" where
  "ascii s = map of_char s"

definition code_points :: "string listing \<Rightarrow> unicode listing" where
  "code_points l =
     \<lparr>image_url = ascii (image_url l), title = ascii (title l), price = price l,
      post_url = ascii (post_url l), location = ascii (location l),
      description = map_option ascii (description l)\<rparr>"

text \<open>
  The values that \<open>json\<close> writes and reads are the type \<open>json\<close>; a dictionary is the list
  of its items in insertion order.
\<close>

datatype json = JNull | JBool bool | JInt int | JStr unicode | JArr "json list"
  | JObj "(unicode \<times> json) list"

text \<open>
  Strings are written by \<open>encode_basestring_ascii\<close> (\<open>ensure_ascii\<close> is true by default):
  between double quotes, with \<open>"\<close>, \<open>\\<close> and every code point outside U+0020 .. U+007E
  replaced: by the short escapes for backspace, form feed, new line, carriage return
  and tab; by \<open>\uXXXX\<close> with four lower-case hexadecimal digits for the other code points
  below U+10000, a surrogate code point included; by two such escapes, of the
  surrogates \<open>0xd800 | ((n >> 10) & 0x3ff)\<close> and \<open>0xdc00 | (n & 0x3ff)\<close> with
  \<open>n = ord(c) - 0x10000\<close>, for a code point from U+10000 on. The two surrogates are
  written with \<open>+\<close>, \<open>div\<close> and \<open>mod\<close>: the operands of \<open>|\<close> have no bit in common.
\<close>

definition hex_digit :: "nat \<Rightarrow> nat" where
  "hex_digit d = ascii ''0123456789abcdef'' ! d"

definition hex4 :: "nat \<Rightarrow> unicode" where
  "hex4 n = [hex_digit (n div 4096 mod 16), hex_digit (n div 256 mod 16),
             hex_digit (n div 16 mod 16), hex_digit (n mod 16)]"

definition escape_char :: "nat \<Rightarrow> unicode" where
  "escape_char c =
     (if c = 0x22 then [0x5C, 0x22]
      else if c = 0x5C then [0x5C, 0x5C]
      else if c = 0x08 then 0x5C # ascii ''b''
      else if c = 0x0C then 0x5C # ascii ''f''
      else if c = 0x0A then 0x5C # ascii ''n''
      else if c = 0x0D then 0x5C # ascii ''r''
      else if c = 0x09 then 0x5C # ascii ''t''
      else if 0x20 \<le> c \<and> c \<le> 0x7E then [c]
      else if c < 0x10000 then 0x5C # ascii ''u'' @ hex4 c
      else 0x5C # ascii ''u'' @ hex4 (0xD800 + (c - 0x10000) div 1024 mod 1024)
           @ 0x5C # ascii ''u'' @ hex4 (0xDC00 + (c - 0x10000) mod 1024))"

definition encode_basestring_ascii :: "unicode \<Rightarrow> unicode" where
  "encode_basestring_ascii s = [0x22] @ concat (map escape_char s) @ [0x22]"

text \<open>
  An integer is written by \<open>int.__repr__\<close>: its decimal digits, \<open>-\<close> in front if negative.
  The conversion raises \<open>ValueError\<close> when the integer has more digits than
  \<open>sys.get_int_max_str_digits()\<close>, which is 4300 unless the interpreter is configured
  otherwise.
\<close>

function digits_of :: "nat \<Rightarrow> unicode" where
  "digits_of n = (if n < 10 then [0x30 + n] else digits_of (n div 10) @ [0x30 + n mod 10])"
  by pat_completeness auto
termination
  by (relation "measure id") auto

declare digits_of.simps [simp del]

definition int_max_str_digits :: nat where
  "int_max_str_digits = 4300"

definition int_repr :: "int \<Rightarrow> error + unicode" where
  "int_repr i =
     (let ds = digits_of (nat \<bar>i\<bar>)
      in if int_max_str_digits < length ds then Inl ValueError
         else Inr (if i < 0 then 0x2D # ds else ds))"

text \<open>
  With \<open>indent=4\<close> the encoder puts every item of a non-empty list or dictionary on a
  line of its own, indented by \<open>indent\<close> spaces per level, with \<open>,\<close> after every item but
  the last, and \<open>: \<close> between key and value; the empty list is \<open>[]\<close>. The items are
  written in order, and the first exception ends the call (\<open>sequence\<close>).
\<close>

fun sequence :: "(error + 'a) list \<Rightarrow> error + 'a list" where
  "sequence [] = Inr []"
| "sequence (x # xs) = and_then x (\<lambda>v. and_then (sequence xs) (\<lambda>vs. Inr (v # vs)))"

fun join :: "unicode \<Rightarrow> unicode list \<Rightarrow> unicode" where
  "join sep [] = []"
| "join sep [x] = x"
| "join sep (x # y # ys) = x @ sep @ join sep (y # ys)"

definition newline_indent :: "nat \<Rightarrow> nat \<Rightarrow> unicode" where
  "newline_indent indent level = 0x0A # replicate (indent * level) 0x20"

fun dumps_indent :: "nat \<Rightarrow> nat \<Rightarrow> json \<Rightarrow> error + unicode" where
  "dumps_indent indent level JNull = Inr (ascii ''null'')"
| "dumps_indent indent level (JBool b) = Inr (if b then ascii ''true'' else ascii ''false'')"
| "dumps_indent indent level (JInt i) = int_repr i"
| "dumps_indent indent level (JStr s) = Inr (encode_basestring_ascii s)"
| "dumps_indent indent level (JArr vs) =
     (if vs = [] then Inr (ascii ''[]'')
      else and_then (sequence (map (dumps_indent indent (Suc level)) vs)) (\<lambda>items.
           Inr (ascii ''['' @ newline_indent indent (Suc level)
                @ join (ascii '','' @ newline_indent indent (Suc level)) items
                @ newline_indent indent level @ ascii '']'')))"
| "dumps_indent indent level (JObj kvs) =
     (if kvs = [] then Inr (ascii ''{}'')
      else and_then (sequence (map (\<lambda>kv. and_then (dumps_indent indent (Suc level) (snd kv))
                                      (\<lambda>v. Inr (encode_basestring_ascii (fst kv) @ ascii '': '' @ v)))
                                kvs)) (\<lambda>items.
           Inr (ascii ''{'' @ newline_indent indent (Suc level)
                @ join (ascii '','' @ newline_indent indent (Suc level)) items
                @ newline_indent indent level @ ascii ''}'')))"

text \<open>
  \<open>listing.__dict__\<close>: the six fields of the dataclass in the order of their
  declaration; an unset \<open>description\<close> is \<open>None\<close>.
\<close>

definition listing_dict :: "unicode listing \<Rightarrow> json" where
  "listing_dict l =
     JObj [(ascii ''image_url'', JStr (image_url l)), (ascii ''title'', JStr (title l)),
           (ascii ''price'', JInt (price l)), (ascii ''post_url'', JStr (post_url l)),
           (ascii ''location'', JStr (location l)),
           (ascii ''description'', (case description l of None \<Rightarrow> JNull | Some d \<Rightarrow> JStr d))]"

definition listings_to_json :: "unicode listing list \<Rightarrow> error + unicode" where
  "listings_to_json listings = dumps_indent 4 0 (JArr (map listing_dict listings))"

subsection \<open>A JSON reader\<close>

text \<open>
  The reader the serialized text is handed to: the grammar of JSON (RFC 8259) for
  texts whose numbers are integers. It works in two passes, \<open>lex\<close> from code points to
  tokens and \<open>parse_value\<close> from tokens to a value. \<open>lex_string\<close> reads a string after its
  opening quote, up to the closing one, and undoes the escapes; \<open>lex_number\<close> reads an
  integer; both give back the rest of the text.

  Every \<open>\uXXXX\<close> is read, with digits in either case. As RFC 8259 (section 7) has it
  and as \<open>json.loads\<close> does, the escape of a high surrogate (U+D800 .. U+DBFF) followed at
  once by the escape of a low surrogate (U+DC00 .. U+DFFF) is one code point,
  \<open>0x10000 + (((high - 0xd800) << 10) | (low - 0xdc00))\<close>; any other escape of a
  surrogate is that code point by itself.
\<close>

datatype token = LBrace | RBrace | LBracket | RBracket | Comma | Colon
  | TStr unicode | TInt int | TNull | TTrue | TFalse

definition json_ws :: "nat \<Rightarrow> bool" where
  "json_ws c = (c \<in> set [0x20, 0x09, 0x0A, 0x0D])"

definition hex_value :: "nat \<Rightarrow> nat option" where
  "hex_value c =
     (if 0x30 \<le> c \<and> c \<le> 0x39 then Some (c - 0x30)
      else if 0x61 \<le> c \<and> c \<le> 0x66 then Some (c - 0x57)
      else if 0x41 \<le> c \<and> c \<le> 0x46 then Some (c - 0x37)
      else None)"

definition unescape :: "nat \<Rightarrow> nat option" where
  "unescape e =
     (if e = 0x22 then Some 0x22
      else if e = 0x5C then Some 0x5C
      else if [e] = ascii ''/'' then Some 0x2F
      else if [e] = ascii ''b'' then Some 0x08
      else if [e] = ascii ''f'' then Some 0x0C
      else if [e] = ascii ''n'' then Some 0x0A
      else if [e] = ascii ''r'' then Some 0x0D
      else if [e] = ascii ''t'' then Some 0x09
      else None)"

definition high_surrogate :: "nat \<Rightarrow> bool" where
  "high_surrogate u = (0xD800 \<le> u \<and> u \<le> 0xDBFF)"

definition low_surrogate :: "nat \<Rightarrow> bool" where
  "low_surrogate u = (0xDC00 \<le> u \<and> u \<le> 0xDFFF)"

text \<open>
  \<open>read_hex4\<close> reads four hexadecimal digits; \<open>read_low_escape\<close> reads \<open>\uXXXX\<close> where it is
  the escape of a low surrogate.
\<close>

definition read_hex4 :: "unicode \<Rightarrow> (nat \<times> unicode) option" where
  "read_hex4 r =
     (case r of
        h1 # h2 # h3 # h4 # r' \<Rightarrow>
          (case (hex_value h1, hex_value h2, hex_value h3, hex_value h4) of
             (Some a, Some b, Some c, Some d) \<Rightarrow> Some (4096 * a + 256 * b + 16 * c + d, r')
           | _ \<Rightarrow> None)
      | _ \<Rightarrow> None)"

definition read_low_escape :: "unicode \<Rightarrow> (nat \<times> unicode) option" where
  "read_low_escape r =
     (case r of
        b # u # r1 \<Rightarrow>
          if b = 0x5C \<and> [u] = ascii ''u'' then
            (case read_hex4 r1 of
               None \<Rightarrow> None
             | Some (low, r2) \<Rightarrow> if low_surrogate low then Some (low, r2) else None)
          else None
      | _ \<Rightarrow> None)"

definition cons_char :: "nat \<Rightarrow> (unicode \<times> unicode) option \<Rightarrow> (unicode \<times> unicode) option" where
  "cons_char c res = (case res of None \<Rightarrow> None | Some (s, rest) \<Rightarrow> Some (c # s, rest))"

lemma read_hex4_length: "read_hex4 r = Some (v, rest) \<Longrightarrow> length rest < length r"
  by (auto simp: read_hex4_def split: list.splits option.splits)

lemma read_low_escape_length: "read_low_escape r = Some (v, rest) \<Longrightarrow> length rest < length r"
  by (auto simp: read_low_escape_def split: list.splits option.splits if_splits
      dest!: read_hex4_length)

function lex_string :: "unicode \<Rightarrow> (unicode \<times> unicode) option" where
  "lex_string [] = None"
| "lex_string (c # r) =
     (if c = 0x22 then Some ([], r)
      else if c = 0x5C then
        (case r of
           [] \<Rightarrow> None
         | e # r1 \<Rightarrow>
             if [e] = ascii ''u'' then
               (case read_hex4 r1 of
                  None \<Rightarrow> None
                | Some (u, r2) \<Rightarrow>
                    if high_surrogate u then
                      (case read_low_escape r2 of
                         None \<Rightarrow> cons_char u (lex_string r2)
                       | Some (low, r3) \<Rightarrow>
                           cons_char (0x10000 + (u - 0xD800) * 1024 + (low - 0xDC00))
                             (lex_string r3))
                    else cons_char u (lex_string r2))
             else (case unescape e of
                     None \<Rightarrow> None
                   | Some ch \<Rightarrow> cons_char ch (lex_string r1)))
      else if c < 0x20 then None
      else cons_char c (lex_string r))"
  by pat_completeness auto
termination
proof (relation "measure length", goal_cases)
  case (2 c r e r1 x2 u r2)
  then show ?case using read_hex4_length [of r1 u r2] by simp
next
  case (3 c r e r1 x2 u r2 x2a low r3)
  then show ?case
    using read_hex4_length [of r1 u r2] read_low_escape_length [of r2 low r3] by simp
next
  case (4 c r e r1 x2 u r2)
  then show ?case using read_hex4_length [of r1 u r2] by simp
qed auto

declare lex_string.simps [simp del]

definition json_digit :: "nat \<Rightarrow> bool" where
  "json_digit c = (0x30 \<le> c \<and> c \<le> 0x39)"

definition lex_digits :: "unicode \<Rightarrow> (int \<times> unicode) option" where
  "lex_digits s =
     (let ds = takeWhile json_digit s; rest = dropWhile json_digit s
      in if ds = [] then None
         else if 1 < length ds \<and> take 1 ds = ascii ''0'' then None
         else if take 1 rest \<in> set [ascii ''.'', ascii ''e'', ascii ''E''] then None
         else Some (foldl (\<lambda>n c. 10 * n + int (c - 0x30)) 0 ds, rest))"

definition lex_number :: "unicode \<Rightarrow> (int \<times> unicode) option" where
  "lex_number s =
     (case s of
        [] \<Rightarrow> None
      | c # r \<Rightarrow>
          if c = 0x2D
          then (case lex_digits r of None \<Rightarrow> None | Some (v, rest) \<Rightarrow> Some (- v, rest))
          else lex_digits (c # r))"

definition cons_token :: "token \<Rightarrow> token list option \<Rightarrow> token list option" where
  "cons_token t res = (case res of None \<Rightarrow> None | Some ts \<Rightarrow> Some (t # ts))"

lemma cons_char_length:
  "cons_char c res = Some (s, rest) \<Longrightarrow> \<exists>s'. res = Some (s', rest)"
  by (auto simp: cons_char_def split: option.splits)

lemma lex_string_length: "lex_string r = Some (s, rest) \<Longrightarrow> length rest < length r"
proof (induction "length r" arbitrary: r s rest rule: less_induct)
  case less
  have step: "length rest < length r"
    if "length r' < length r" and "cons_char c (lex_string r') = Some (s, rest)" for c r'
  proof -
    from that(2) obtain s' where "lex_string r' = Some (s', rest)"
      by (auto dest: cons_char_length)
    from less.hyps [OF that(1) this] that(1) show ?thesis by simp
  qed
  show ?case
  proof (cases r)
    case Nil
    with less.prems show ?thesis by (simp add: lex_string.simps)
  next
    case (Cons c r0)
    show ?thesis
    proof (cases "c = 0x22")
      case True
      with Cons less.prems show ?thesis by (simp add: lex_string.simps)
    next
      case q: False
      show ?thesis
      proof (cases "c = 0x5C")
        case False
        with q Cons less.prems have "cons_char c (lex_string r0) = Some (s, rest)"
          by (auto simp: lex_string.simps split: if_splits)
        with Cons show ?thesis by (intro step [of r0 c]) simp_all
      next
        case True
        with q Cons less.prems obtain e r1 where r0: "r0 = e # r1"
          by (cases r0) (auto simp: lex_string.simps)
        show ?thesis
        proof (cases "[e] = ascii ''u''")
          case False
          with q True Cons r0 less.prems obtain ch where "cons_char ch (lex_string r1) = Some (s, rest)"
            by (auto simp: lex_string.simps split: option.splits)
          with Cons r0 show ?thesis by (intro step [of r1 ch]) simp_all
        next
          case u: True
          with q True Cons r0 less.prems obtain v r2 where h: "read_hex4 r1 = Some (v, r2)"
            by (auto simp: lex_string.simps split: option.splits)
          from read_hex4_length [OF h] Cons r0 have l2: "length r2 < length r" by simp
          show ?thesis
          proof (cases "high_surrogate v \<and> read_low_escape r2 \<noteq> None")
            case False
            with q True Cons r0 u h less.prems have "cons_char v (lex_string r2) = Some (s, rest)"
              by (auto simp: lex_string.simps split: option.splits if_splits)
            with l2 show ?thesis by (intro step [of r2 v]) simp_all
          next
            case True
            then obtain low r3 where e: "read_low_escape r2 = Some (low, r3)" by auto
            from read_low_escape_length [OF e] l2 have l3: "length r3 < length r" by simp
            from q \<open>c = 0x5C\<close> Cons r0 u h e True less.prems
            have "cons_char (0x10000 + (v - 0xD800) * 1024 + (low - 0xDC00)) (lex_string r3) = Some (s, rest)"
              by (simp add: lex_string.simps)
            with l3 show ?thesis by (intro step [of r3]) simp_all
          qed
        qed
      qed
    qed
  qed
qed


lemma lex_digits_length: "lex_digits s = Some (v, rest) \<Longrightarrow> length rest < length s"
proof -
  assume a: "lex_digits s = Some (v, rest)"
  then have "takeWhile json_digit s \<noteq> []" and "rest = dropWhile json_digit s"
    by (auto simp: lex_digits_def Let_def split: if_splits)
  moreover have "length (takeWhile json_digit s) + length (dropWhile json_digit s) = length s"
    by (metis length_append takeWhile_dropWhile_id)
  ultimately show ?thesis
    by (cases "takeWhile json_digit s") auto
qed

lemma lex_number_length: "lex_number s = Some (v, rest) \<Longrightarrow> length rest < length s"
  by (auto simp: lex_number_def split: list.splits if_splits option.splits
      dest!: lex_digits_length)

function lex :: "unicode \<Rightarrow> token list option" where
  "lex [] = Some []"
| "lex (c # r) =
     (if json_ws c then lex r
      else if [c] = ascii ''{'' then cons_token LBrace (lex r)
      else if [c] = ascii ''}'' then cons_token RBrace (lex r)
      else if [c] = ascii ''['' then cons_token LBracket (lex r)
      else if [c] = ascii '']'' then cons_token RBracket (lex r)
      else if [c] = ascii '','' then cons_token Comma (lex r)
      else if [c] = ascii '':'' then cons_token Colon (lex r)
      else if c = 0x22 then
        (case lex_string r of
           None \<Rightarrow> None
         | Some (s, rest) \<Rightarrow> cons_token (TStr s) (lex rest))
      else if c = 0x2D \<or> json_digit c then
        (case lex_number (c # r) of
           None \<Rightarrow> None
         | Some (v, rest) \<Rightarrow> cons_token (TInt v) (lex rest))
      else if take 4 (c # r) = ascii ''null'' then cons_token TNull (lex (drop 4 (c # r)))
      else if take 4 (c # r) = ascii ''true'' then cons_token TTrue (lex (drop 4 (c # r)))
      else if take 5 (c # r) = ascii ''false'' then cons_token TFalse (lex (drop 5 (c # r)))
      else None)"
  by pat_completeness auto
termination
proof (relation "measure length", goal_cases)
  case (9 c r x2 x y)
  then show ?case using lex_string_length [of r x y] by simp
next
  case (10 c r x2 x y)
  then show ?case using lex_number_length [of "c # r" x y] by simp
qed auto

declare lex.simps [simp del]

text \<open>
  The parser has a counter that every call decreases; \<open>loads\<close> starts it at twice the
  number of tokens. \<open>parse_elements\<close> reads the items of a list after \<open>[\<close>, up to \<open>]\<close>;
  \<open>parse_members\<close> those of a dictionary after \<open>{\<close>, up to \<open>}\<close>.
\<close>

fun parse_value :: "nat \<Rightarrow> token list \<Rightarrow> (json \<times> token list) option"
  and parse_elements :: "nat \<Rightarrow> token list \<Rightarrow> (json list \<times> token list) option"
  and parse_members :: "nat \<Rightarrow> token list \<Rightarrow> ((unicode \<times> json) list \<times> token list) option"
where
  "parse_value 0 ts = None"
| "parse_value (Suc n) ts =
     (case ts of
        [] \<Rightarrow> None
      | t # ts1 \<Rightarrow>
         (case t of
            TNull \<Rightarrow> Some (JNull, ts1)
          | TTrue \<Rightarrow> Some (JBool True, ts1)
          | TFalse \<Rightarrow> Some (JBool False, ts1)
          | TInt v \<Rightarrow> Some (JInt v, ts1)
          | TStr s \<Rightarrow> Some (JStr s, ts1)
          | LBracket \<Rightarrow>
              (case ts1 of
                 RBracket # ts2 \<Rightarrow> Some (JArr [], ts2)
               | _ \<Rightarrow> (case parse_elements n ts1 of
                         None \<Rightarrow> None
                       | Some (vs, ts2) \<Rightarrow> Some (JArr vs, ts2)))
          | LBrace \<Rightarrow>
              (case ts1 of
                 RBrace # ts2 \<Rightarrow> Some (JObj [], ts2)
               | _ \<Rightarrow> (case parse_members n ts1 of
                         None \<Rightarrow> None
                       | Some (kvs, ts2) \<Rightarrow> Some (JObj kvs, ts2)))
          | _ \<Rightarrow> None))"
| "parse_elements 0 ts = None"
| "parse_elements (Suc n) ts =
     (case parse_value n ts of
        None \<Rightarrow> None
      | Some (v, ts1) \<Rightarrow>
         (case ts1 of
            Comma # ts2 \<Rightarrow>
              (case parse_elements n ts2 of
                 None \<Rightarrow> None
               | Some (vs, ts3) \<Rightarrow> Some (v # vs, ts3))
          | RBracket # ts2 \<Rightarrow> Some ([v], ts2)
          | _ \<Rightarrow> None))"
| "parse_members 0 ts = None"
| "parse_members (Suc n) ts =
     (case ts of
        TStr k # Colon # ts1 \<Rightarrow>
          (case parse_value n ts1 of
             None \<Rightarrow> None
           | Some (v, ts2) \<Rightarrow>
              (case ts2 of
                 Comma # ts3 \<Rightarrow>
                   (case parse_members n ts3 of
                      None \<Rightarrow> None
                    | Some (kvs, ts4) \<Rightarrow> Some ((k, v) # kvs, ts4))
               | RBrace # ts3 \<Rightarrow> Some ([(k, v)], ts3)
               | _ \<Rightarrow> None))
      | _ \<Rightarrow> None)"

definition loads :: "unicode \<Rightarrow> json option" where
  "loads s =
     (case lex s of
        None \<Rightarrow> None
      | Some ts \<Rightarrow>
         (case parse_value (2 * length ts) ts of
            Some (v, []) \<Rightarrow> Some v
          | _ \<Rightarrow> None))"

text \<open>
  Writing listings and reading the text back: the exception of the writer if it raises
  one, else what the reader gives (\<open>None\<close> when it rejects the text).
\<close>

definition round_trip :: "unicode listing list \<Rightarrow> error + json option" where
  "round_trip listings = and_then (listings_to_json listings) (\<lambda>text. Inr (loads text))"

text \<open>
  A string has a surrogate pair when a high surrogate is followed at once by a low
  surrogate. \<open>listing_strs\<close> are the strings of a listing.
\<close>

fun surrogate_pair_in :: "unicode \<Rightarrow> bool" where
  "surrogate_pair_in (a # b # s) =
     (high_surrogate a \<and> low_surrogate b \<or> surrogate_pair_in (b # s))"
| "surrogate_pair_in [a] = False"
| "surrogate_pair_in [] = False"

definition listing_strs :: "unicode listing \<Rightarrow> unicode list" where
  "listing_strs l =
     [image_url l, title l, post_url l, location l]
     @ (case description l of None \<Rightarrow> [] | Some d \<Rightarrow> [d])"

text \<open>
  The listings of the round trip below: the price has no more digits than
  \<open>int_max_str_digits\<close>, and every string is a \<open>str\<close> with no surrogate pair.
\<close>

definition serializable :: "unicode listing \<Rightarrow> bool" where
  "serializable l =
     (\<bar>price l\<bar> < 10 ^ int_max_str_digits
      \<and> list_all (\<lambda>s. is_str s \<and> \<not> surrogate_pair_in s) (listing_strs l))"

text \<open>
  Listings used as concrete inputs below: \<open>paired\<close> has a title of two code points, a
  high and a low surrogate; the price of \<open>overlong\<close> has one digit more than
  \<open>int_max_str_digits\<close>; the strings of \<open>postcard\<close> have a quote, a new line, code points
  above U+007E on both sides of U+10000, and a low surrogate before a high one.
\<close>

definition paired :: "unicode listing" where
  "paired = \<lparr>image_url = ascii ''https://scontent.xx.fbcdn.net/mug.jpg'', title = [0xD83D, 0xDE00],
       price = 5, post_url = ascii ''https://www.facebook.com/marketplace/item/9'',
       location = ascii ''Toronto, ON'', description = None\<rparr>"

definition overlong :: "unicode listing" where
  "overlong = paired\<lparr>title := ascii ''Mug'', price := 10 ^ int_max_str_digits\<rparr>"

definition postcard :: "unicode listing" where
  "postcard = \<lparr>image_url = ascii ''https://scontent.xx.fbcdn.net/card.jpg'',
       title = ascii ''Carte '' @ [0x22, 0xE9, 0x2019, 0x1F600, 0x22, 0x0A, 0xDE00, 0xD83D],
       price = - 3, post_url = ascii ''https://www.facebook.com/marketplace/item/10'',
       location = [0x6771, 0x4EAC], description = Some (ascii ''None'')\<rparr>"

text \<open>
  For the proofs: where a number may end, and the tokens of a serialized listing and
  of a serialized list of listings (after its opening bracket).
\<close>

definition number_ends :: "unicode \<Rightarrow> bool" where
  "number_ends r = (case r of [] \<Rightarrow> True | c # _ \<Rightarrow> \<not> json_digit c \<and> [c] \<notin> set [ascii ''.'', ascii ''e'', ascii ''E''])"

definition append_tokens :: "token list \<Rightarrow> token list option \<Rightarrow> token list option" where
  "append_tokens ts res = (case res of None \<Rightarrow> None | Some us \<Rightarrow> Some (ts @ us))"

definition listing_tokens :: "unicode listing \<Rightarrow> token list" where
  "listing_tokens l =
     [LBrace, TStr (ascii ''image_url''), Colon, TStr (image_url l), Comma,
      TStr (ascii ''title''), Colon, TStr (title l), Comma,
      TStr (ascii ''price''), Colon, TInt (price l), Comma,
      TStr (ascii ''post_url''), Colon, TStr (post_url l), Comma,
      TStr (ascii ''location''), Colon, TStr (location l), Comma,
      TStr (ascii ''description''), Colon,
      (case description l of None \<Rightarrow> TNull | Some d \<Rightarrow> TStr d), RBrace]"

fun listings_tokens :: "unicode listing list \<Rightarrow> token list" where
  "listings_tokens [] = [RBracket]"
| "listings_tokens [l] = listing_tokens l @ [RBracket]"
| "listings_tokens (l # k # ls) = listing_tokens l @ Comma # listings_tokens (k # ls)"


section \<open>Properties of the cleanup functions\<close>

lemma takeWhile_absent: "sep \<notin> set s \<Longrightarrow> takeWhile (\<lambda>c. c \<noteq> sep) s = s"
  by (induction s) auto

lemma clean_listing_url_takeWhile:
  "clean_listing_url u = Inr (ORIGIN @ takeWhile (\<lambda>c. c \<noteq> CHR ''?'') u)"
  by (simp add: clean_listing_url_def index0_def takeWhile_absent)

lemma ORIGIN_no_query: "CHR ''?'' \<notin> set ORIGIN"
  by (simp add: ORIGIN_def)

text \<open>
  Claim C7. For every input string \<open>clean_listing_url\<close> returns (it raises nothing) the
  origin \<open>https://www.facebook.com\<close> followed by the part of the input before its first
  \<open>?\<close>; an input without \<open>?\<close> is returned whole behind the origin.
\<close>

theorem clean_listing_url_total:
  "(\<exists>r. clean_listing_url u = Inr r)
   \<and> (CHR ''?'' \<notin> set u \<longrightarrow> clean_listing_url u = Inr (ORIGIN @ u))
   \<and> (\<forall>p q. u = p @ CHR ''?'' # q \<and> CHR ''?'' \<notin> set p \<longrightarrow> clean_listing_url u = Inr (ORIGIN @ p))
   \<and> ORIGIN = ''https://www.facebook.com''"
  by (auto simp: clean_listing_url_takeWhile takeWhile_absent takeWhile_tail ORIGIN_def)

theorem clean_listing_url_total_witness:
  "clean_listing_url ''/marketplace/item/123?ref=abc'' = Inr ''https://www.facebook.com/marketplace/item/123''
   \<and> clean_listing_url ''/marketplace/item/123'' = Inr ''https://www.facebook.com/marketplace/item/123''"
proof -
  have a: "''/marketplace/item/123?ref=abc'' = ''/marketplace/item/123'' @ CHR ''?'' # ''ref=abc''
             \<and> CHR ''?'' \<notin> set ''/marketplace/item/123''"
    by simp
  have b: "CHR ''?'' \<notin> set ''/marketplace/item/123''" by simp
  from clean_listing_url_total [of "''/marketplace/item/123?ref=abc''"] a
  have "clean_listing_url ''/marketplace/item/123?ref=abc'' = Inr (ORIGIN @ ''/marketplace/item/123'')"
    by blast
  moreover from clean_listing_url_total [of "''/marketplace/item/123''"] b
  have "clean_listing_url ''/marketplace/item/123'' = Inr (ORIGIN @ ''/marketplace/item/123'')"
    by blast
  ultimately show ?thesis by (simp add: ORIGIN_def)
qed

text \<open>
  Claim C10. \<open>clean_listing_url\<close> is not idempotent: applied to its own result it puts
  the origin in front a second time, so the second result differs from the first; and
  an input that already begins with the origin comes back with the origin twice.
\<close>

theorem clean_listing_url_not_idempotent:
  "(\<exists>v w. clean_listing_url u = Inr v \<and> clean_listing_url v = Inr w \<and> w = ORIGIN @ v \<and> w \<noteq> v)
   \<and> clean_listing_url (ORIGIN @ rest) = Inr (ORIGIN @ ORIGIN @ takeWhile (\<lambda>c. c \<noteq> CHR ''?'') rest)"
proof -
  have tw: "takeWhile (\<lambda>c. c \<noteq> CHR ''?'') (ORIGIN @ s) = ORIGIN @ takeWhile (\<lambda>c. c \<noteq> CHR ''?'') s" for s
    by (rule takeWhile_append2) (use ORIGIN_no_query in auto)
  have ne: "ORIGIN @ v \<noteq> v" for v
    by (simp add: ORIGIN_def)
  let ?v = "ORIGIN @ takeWhile (\<lambda>c. c \<noteq> CHR ''?'') u"
  have 1: "clean_listing_url u = Inr ?v"
    by (rule clean_listing_url_takeWhile)
  have "takeWhile (\<lambda>c. c \<noteq> CHR ''?'') ?v = ?v"
    unfolding tw by (simp only: takeWhile_idem)
  then have 2: "clean_listing_url ?v = Inr (ORIGIN @ ?v)"
    by (simp only: clean_listing_url_takeWhile)
  have 3: "clean_listing_url (ORIGIN @ rest) = Inr (ORIGIN @ ORIGIN @ takeWhile (\<lambda>c. c \<noteq> CHR ''?'') rest)"
    by (simp only: clean_listing_url_takeWhile tw)
  from 1 2 ne [of ?v] 3 show ?thesis by blast
qed

theorem clean_listing_url_not_idempotent_witness:
  "clean_listing_url ''/marketplace/item/123?ref=abc'' = Inr ''https://www.facebook.com/marketplace/item/123''
   \<and> clean_listing_url ''https://www.facebook.com/marketplace/item/123''
       = Inr ''https://www.facebook.comhttps://www.facebook.com/marketplace/item/123''"
  using clean_listing_url_not_idempotent [of "''/marketplace/item/123?ref=abc''" "''/marketplace/item/123''"]
  by (simp add: ORIGIN_def clean_listing_url_takeWhile)

lemmas eval_price = strip_def isspace_def convert_price_to_int_def py_int_def isdigit_def
  isdecimal_def digit_value_def

lemma digit_value_range: "isdecimal c \<Longrightarrow> 0 \<le> digit_value c \<and> digit_value c \<le> 9"
  by (auto simp: isdecimal_def digit_value_def)

lemma foldl_digits_nonneg:
  "list_all isdecimal s \<Longrightarrow> 0 \<le> a \<Longrightarrow> 0 \<le> foldl (\<lambda>n c. 10 * n + digit_value c) a s"
  by (induction s arbitrary: a) (auto simp: digit_value_range)

lemma convert_price_to_int_nonneg: "convert_price_to_int p = Inr n \<Longrightarrow> 0 \<le> n"
  by (auto simp: convert_price_to_int_def py_int_def foldl_digits_nonneg split: if_splits)

lemma convert_price_to_int_error: "convert_price_to_int p = Inl e \<Longrightarrow> e = ValueError"
  by (auto simp: convert_price_to_int_def py_int_def split: if_splits)

lemma convert_price_to_int_decimal:
  "filter isdigit p = ds \<Longrightarrow> ds \<noteq> [] \<Longrightarrow> list_all isdecimal ds \<Longrightarrow>
     convert_price_to_int p = Inr (foldl (\<lambda>n c. 10 * n + digit_value c) 0 ds)"
  by (simp add: convert_price_to_int_def py_int_def)

lemma convert_price_to_int_no_digits:
  "filter isdigit p = [] \<Longrightarrow> convert_price_to_int p = Inl ValueError"
  by (simp add: convert_price_to_int_def py_int_def)

lemma convert_price_to_int_examples:
  "convert_price_to_int ''$CA1,000'' = Inr 1000"
  "convert_price_to_int ''1234'' = Inr 1234"
  "convert_price_to_int '''' = Inl ValueError"
  "convert_price_to_int ''$CA'' = Inl ValueError"
  by (simp_all add: eval_price)

text \<open>
  Claim C6, at the price text \<open>$500/m\<close> followed by U+00B2 (superscript two). The text has
  the decimal digits 5, 0, 0, and the claim gives it the value 500. \<open>str.isdigit\<close> keeps
  the superscript as well, and \<open>int\<close> raises \<open>ValueError\<close> on the string that is left.
\<close>

theorem superscript_digit_price_fails:
  "isdecimal (CHR ''5'') \<and> filter isdecimal (''$500/m'' @ [CHR 0xB2]) = ''500''
   \<and> filter isdigit (''$500/m'' @ [CHR 0xB2]) = ''500'' @ [CHR 0xB2]
   \<and> convert_price_to_int (''$500/m'' @ [CHR 0xB2]) = Inl ValueError"
  by (simp add: eval_price)

section \<open>Properties of the request filter\<close>

lemma str_contains_iff: "str_contains key s \<longleftrightarrow> (\<exists>ps ss. s = ps @ key @ ss)"
proof -
  have sw: "starts_with k t \<longleftrightarrow> prefix k t" for k t
    by (induction k t rule: starts_with.induct) auto
  have "str_contains key s \<longleftrightarrow> sublist key s"
    by (induction s) (auto simp: sw sublist_Cons_right)
  then show ?thesis by (simp add: sublist_def)
qed

text \<open>
  Claim C4. A request whose resource type is in the fixed list of blocked types is
  aborted whatever its URL is; otherwise it is aborted when its URL has one of the fixed
  blocked names as a contiguous run of characters (compared character by character, so
  with the case as written); otherwise it continues.
\<close>

theorem blocking_intercept_policy:
  "(resource_type r \<in> {''beacon'', ''csp_report'', ''font'', ''image'', ''imageset'', ''media'',
        ''object'', ''texttrack'', ''xhr'', ''eventsource''} \<longrightarrow> blocking_intercept r = Abort)
   \<and> (resource_type r \<notin> set BLOCK_RESOURCE_TYPES
        \<and> (\<exists>key \<in> {''adzerk'', ''analytics'', ''cdn.api.twitter'', ''doubleclick'', ''exelator'',
              ''fontawesome'', ''google'', ''google-analytics'', ''googletagmanager''}.
              \<exists>ps ss. url r = ps @ key @ ss) \<longrightarrow> blocking_intercept r = Abort)
   \<and> (resource_type r \<notin> set BLOCK_RESOURCE_TYPES
        \<and> \<not> (\<exists>key \<in> set BLOCK_RESOURCE_NAMES. \<exists>ps ss. url r = ps @ key @ ss)
        \<longrightarrow> blocking_intercept r = Continue)"
proof -
  have names: "list_ex (\<lambda>key. str_contains key (url r)) BLOCK_RESOURCE_NAMES
      \<longleftrightarrow> (\<exists>key \<in> set BLOCK_RESOURCE_NAMES. \<exists>ps ss. url r = ps @ key @ ss)"
    by (simp only: list_ex_iff str_contains_iff)
  have tys: "set BLOCK_RESOURCE_TYPES = {''beacon'', ''csp_report'', ''font'', ''image'', ''imageset'', ''media'',
        ''object'', ''texttrack'', ''xhr'', ''eventsource''}"
    by (simp only: BLOCK_RESOURCE_TYPES_def list.set)
  have nms: "set BLOCK_RESOURCE_NAMES = {''adzerk'', ''analytics'', ''cdn.api.twitter'', ''doubleclick'', ''exelator'',
              ''fontawesome'', ''google'', ''google-analytics'', ''googletagmanager''}"
    by (simp only: BLOCK_RESOURCE_NAMES_def list.set)
  show ?thesis
    unfolding blocking_intercept_def names tys [symmetric] nms [symmetric]
    by auto
qed


theorem blocking_intercept_policy_witness:
  "blocking_intercept \<lparr>resource_type = ''image'', url = ''https://www.google.com/logo.png''\<rparr> = Abort
   \<and> blocking_intercept \<lparr>resource_type = ''script'', url = ''https://www.google.com/x.js''\<rparr> = Abort
   \<and> blocking_intercept \<lparr>resource_type = ''script'', url = ''https://www.GOOGLE.com/x.js''\<rparr> = Continue
   \<and> blocking_intercept \<lparr>resource_type = ''document'', url = ''https://www.facebook.com/marketplace''\<rparr> = Continue"
proof -
  let ?r1 = "\<lparr>resource_type = ''image'', url = ''https://www.google.com/logo.png''\<rparr>"
  let ?r2 = "\<lparr>resource_type = ''script'', url = ''https://www.google.com/x.js''\<rparr>"
  let ?r3 = "\<lparr>resource_type = ''script'', url = ''https://www.GOOGLE.com/x.js''\<rparr>"
  let ?r4 = "\<lparr>resource_type = ''document'', url = ''https://www.facebook.com/marketplace''\<rparr>"
  have t1: "resource_type ?r1 \<in> {''beacon'', ''csp_report'', ''font'', ''image'', ''imageset'', ''media'',
        ''object'', ''texttrack'', ''xhr'', ''eventsource''}"
    by simp
  have t2: "resource_type ?r2 \<notin> set BLOCK_RESOURCE_TYPES"
    by (simp add: BLOCK_RESOURCE_TYPES_def)
  have t3: "resource_type ?r3 \<notin> set BLOCK_RESOURCE_TYPES"
    by (simp add: BLOCK_RESOURCE_TYPES_def)
  have t4: "resource_type ?r4 \<notin> set BLOCK_RESOURCE_TYPES"
    by (simp add: BLOCK_RESOURCE_TYPES_def)
  have "url ?r2 = ''https://www.'' @ ''google'' @ ''.com/x.js''"
    by simp
  then have "\<exists>ps ss. url ?r2 = ps @ ''google'' @ ss"
    by (rule_tac x = "''https://www.''" in exI, rule_tac x = "''.com/x.js''" in exI)
  then have u2: "\<exists>key \<in> {''adzerk'', ''analytics'', ''cdn.api.twitter'', ''doubleclick'', ''exelator'',
              ''fontawesome'', ''google'', ''google-analytics'', ''googletagmanager''}.
              \<exists>ps ss. url ?r2 = ps @ key @ ss"
    by (rule_tac x = "''google''" in bexI) (assumption, simp)
  have "\<not> list_ex (\<lambda>key. str_contains key (url ?r3)) BLOCK_RESOURCE_NAMES"
    by (simp add: BLOCK_RESOURCE_NAMES_def)
  then have u3: "\<not> (\<exists>key \<in> set BLOCK_RESOURCE_NAMES. \<exists>ps ss. url ?r3 = ps @ key @ ss)"
    unfolding list_ex_iff str_contains_iff .
  have "\<not> list_ex (\<lambda>key. str_contains key (url ?r4)) BLOCK_RESOURCE_NAMES"
    by (simp add: BLOCK_RESOURCE_NAMES_def)
  then have u4: "\<not> (\<exists>key \<in> set BLOCK_RESOURCE_NAMES. \<exists>ps ss. url ?r4 = ps @ key @ ss)"
    unfolding list_ex_iff str_contains_iff .
  from blocking_intercept_policy [of ?r1] t1 have 1: "blocking_intercept ?r1 = Abort" by blast
  from blocking_intercept_policy [of ?r2] t2 u2 have 2: "blocking_intercept ?r2 = Abort" by blast
  from blocking_intercept_policy [of ?r3] t3 u3 have 3: "blocking_intercept ?r3 = Continue" by blast
  from blocking_intercept_policy [of ?r4] t4 u4 have 4: "blocking_intercept ?r4 = Continue" by blast
  from 1 2 3 4 show ?thesis by (simp only: simp_thms)
qed

section \<open>Properties of the extraction\<close>

lemma select_one_fragment:
  "select_one (fragment s t p h l) IMAGE_SELECTOR = Some \<lparr>tag_attrs = [''src'' \<mapsto> AttrStr s], tag_text = []\<rparr>"
  "select_one (fragment s t p h l) TITLE_SELECTOR = Some \<lparr>tag_attrs = Map.empty, tag_text = t\<rparr>"
  "select_one (fragment s t p h l) PRICE_SELECTOR = Some \<lparr>tag_attrs = Map.empty, tag_text = p\<rparr>"
  "select_one (fragment s t p h l) URL_SELECTOR = Some \<lparr>tag_attrs = [''href'' \<mapsto> AttrStr h], tag_text = []\<rparr>"
  "select_one (fragment s t p h l) LOCATION_SELECTOR = Some \<lparr>tag_attrs = Map.empty, tag_text = l\<rparr>"
  by (simp_all add: select_one_def fragment_def IMAGE_SELECTOR_def TITLE_SELECTOR_def
      PRICE_SELECTOR_def URL_SELECTOR_def LOCATION_SELECTOR_def)


lemma parse_fragment:
  "parse_listing_with_soup (fragment s t p h l) =
     (if strip p = [] then Inl ParseError
      else case convert_price_to_int (strip p) of
             Inl e \<Rightarrow> Inl e
           | Inr n \<Rightarrow>
               if s \<noteq> [] \<and> strip t \<noteq> [] \<and> n \<noteq> 0 \<and> h \<noteq> [] \<and> strip l \<noteq> []
               then Inr \<lparr>image_url = s, title = strip t, price = n,
                         post_url = ORIGIN @ takeWhile (\<lambda>c. c \<noteq> CHR ''?'') h,
                         location = strip l, description = None\<rparr>
               else Inl ParseError)"
  by (simp add: parse_listing_with_soup_def select_one_fragment get_attr_def get_text_def
      first_if_list_def and_then_def truthy_str_def truthy_int_def clean_listing_url_takeWhile
      Let_def ORIGIN_def split: sum.splits)


lemma parse_bike: "parse_listing_with_soup bike = Inr bike_listing"
  by (simp add: bike_def bike_listing_def parse_fragment eval_price ORIGIN_def)



lemma parse_free_sofa: "parse_listing_with_soup free_sofa = Inl ValueError"
  by (simp add: free_sofa_def parse_fragment eval_price)

lemma parse_zero_priced: "parse_listing_with_soup zero_priced = Inl ParseError"
  by (simp add: zero_priced_def parse_fragment eval_price)

lemma parse_listing_with_soup_valid:
  "parse_listing_with_soup soup = Inr l \<Longrightarrow>
     image_url l \<noteq> [] \<and> title l \<noteq> [] \<and> 0 \<le> price l \<and> post_url l \<noteq> [] \<and> location l \<noteq> []
     \<and> description l = None"
  unfolding parse_listing_with_soup_def and_then_def Let_def
  by (auto simp: truthy_str_def truthy_int_def convert_price_to_int_nonneg
      split: sum.splits if_splits option.splits)

lemma parse_all_invariant:
  "parse_all fs acc = Inr ls \<Longrightarrow> (\<forall>l \<in> set acc. P l)
   \<Longrightarrow> (\<And>f l. parse_listing_with_soup f = Inr l \<Longrightarrow> P l) \<Longrightarrow> (\<forall>l \<in> set ls. P l)"
proof (induction fs arbitrary: acc)
  case Nil
  then show ?case by simp
next
  case (Cons f fs)
  show ?case
  proof (cases "parse_listing_with_soup f")
    case (Inl e)
    with Cons.prems(1) have "parse_all fs acc = Inr ls"
      by (simp split: if_splits)
    from Cons.IH [OF this Cons.prems(2) Cons.prems(3)] show ?thesis .
  next
    case (Inr x)
    with Cons.prems(1) have a: "parse_all fs (acc @ [x]) = Inr ls"
      by simp
    have "\<forall>l \<in> set (acc @ [x]). P l"
      using Cons.prems(2) Cons.prems(3) [OF Inr] by simp
    from Cons.IH [OF a this Cons.prems(3)] show ?thesis .
  qed
qed


text \<open>
  Claim C9. A listing that \<open>parse_listing_with_soup\<close> returns has a non-empty image URL,
  title, post URL and location, a price that is not negative, and no description; the
  same holds of every listing in the list that \<open>fetch_marketplace_listings\<close> returns.
\<close>

theorem extracted_listing_invariant:
  "(parse_listing_with_soup soup = Inr l \<longrightarrow>
      image_url l \<noteq> [] \<and> title l \<noteq> [] \<and> 0 \<le> price l \<and> post_url l \<noteq> [] \<and> location l \<noteq> []
      \<and> description l = None)
   \<and> (fetch_marketplace_listings listings max_listings = Inr ls \<longrightarrow>
        (\<forall>k \<in> set ls. image_url k \<noteq> [] \<and> title k \<noteq> [] \<and> 0 \<le> price k \<and> post_url k \<noteq> []
            \<and> location k \<noteq> [] \<and> description k = None))"
proof (intro conjI impI)
  assume "fetch_marketplace_listings listings max_listings = Inr ls"
  then obtain fs where "parse_all fs [] = Inr ls"
    by (auto simp: fetch_marketplace_listings_def Let_def)
  then show "\<forall>k \<in> set ls. image_url k \<noteq> [] \<and> title k \<noteq> [] \<and> 0 \<le> price k \<and> post_url k \<noteq> []
            \<and> location k \<noteq> [] \<and> description k = None"
    by (rule parse_all_invariant) (simp_all add: parse_listing_with_soup_valid)
qed (simp_all add: parse_listing_with_soup_valid)

theorem extracted_listing_invariant_witness:
  "parse_listing_with_soup bike = Inr bike_listing
   \<and> fetch_marketplace_listings [bike] 0 = Inr [bike_listing]
   \<and> image_url bike_listing \<noteq> [] \<and> title bike_listing \<noteq> [] \<and> 0 \<le> price bike_listing
   \<and> post_url bike_listing \<noteq> [] \<and> location bike_listing \<noteq> [] \<and> description bike_listing = None"
proof -
  have f: "fetch_marketplace_listings [bike] 0 = Inr [bike_listing]"
    by (simp add: fetch_marketplace_listings_def parse_bike)
  from extracted_listing_invariant [of bike bike_listing "[bike]" 0 "[bike_listing]"] parse_bike f
  show ?thesis by simp
qed



text \<open>
  Claim C1, at a batch whose second fragment has the price text \<open>Free\<close> (not empty, no
  digit). \<open>convert_price_to_int\<close> raises \<open>ValueError\<close>; \<open>parse_listing_with_soup\<close> lets it
  pass as it is, not as \<open>ParseError\<close>; \<open>except ParseError\<close> does not catch it, and the loop
  ends with this exception: the first and the third fragment give no listing.
\<close>

theorem non_numeric_price_aborts_batch:
  "strip ''Free'' \<noteq> [] \<and> filter isdigit (strip ''Free'') = []
   \<and> convert_price_to_int (strip ''Free'') = Inl ValueError
   \<and> parse_listing_with_soup free_sofa = Inl ValueError
   \<and> fetch_marketplace_listings [bike, free_sofa, lamp] 0 = Inl ValueError"
  by (simp add: fetch_marketplace_listings_def parse_bike parse_free_sofa eval_price)

text \<open>
  Claim C2, at a fragment with all five elements and the price text \<open>$0\<close>. The price is
  read as 0, which counts as false in \<open>all([image, title, price, link, location])\<close>, and
  the extraction raises \<open>ParseError\<close> although no lookup failed and no value is empty or
  unreadable.
\<close>

theorem zero_price_rejected:
  "convert_price_to_int (strip ''$0'') = Inr 0
   \<and> parse_listing_with_soup zero_priced = Inl ParseError"
  by (simp add: parse_zero_priced eval_price)

text \<open>
  Claim C5, at a fragment with the price text \<open>Free\<close>. The extraction ends with
  \<open>ValueError\<close>: it returns no listing, and the exception is not \<open>ParseError\<close>.
\<close>

theorem non_numeric_price_neither_listing_nor_ParseError:
  "parse_listing_with_soup free_sofa = Inl ValueError
   \<and> parse_listing_with_soup free_sofa \<noteq> Inl ParseError
   \<and> (\<forall>l. parse_listing_with_soup free_sofa \<noteq> Inr l)"
  by (simp add: parse_free_sofa)

section \<open>Properties of the serialization\<close>

lemma less_16_cases:
  "d < 16 \<Longrightarrow> d \<in> set [0, 1, 2, 3, 4, 5, 6, 7, 8, 9, 10, 11, 12, 13, 14, 15::nat]"
proof -
  assume "d < 16"
  then have "d \<in> set [0..<16]" by simp
  also have "[0..<16] = [0, 1, 2, 3, 4, 5, 6, 7, 8, 9, 10, 11, 12, 13, 14, 15::nat]"
    by (simp add: upt_rec)
  finally show ?thesis .
qed

lemma hex_value_hex_digit: "d < 16 \<Longrightarrow> hex_value (hex_digit d) = Some d"
  by (drule less_16_cases) (auto simp: hex_digit_def hex_value_def ascii_def)

lemma hex4_value:
  fixes n :: nat
  assumes "n < 65536"
  shows "4096 * (n div 4096 mod 16) + 256 * (n div 256 mod 16) + 16 * (n div 16 mod 16) + n mod 16 = n"
proof -
  have d: "n div 16 div 16 = n div 256" "n div 256 div 16 = n div 4096"
    by (simp_all add: div_mult2_eq [symmetric])
  have 1: "n mod 16 + 16 * (n div 16) = n"
    by (rule mod_mult_div_eq)
  have 2: "n div 16 mod 16 + 16 * (n div 256) = n div 16"
    using mod_mult_div_eq [of "n div 16" 16] by (simp only: d)
  have 3: "n div 256 mod 16 + 16 * (n div 4096) = n div 256"
    using mod_mult_div_eq [of "n div 256" 16] by (simp only: d)
  from assms have "n div 4096 < 16"
    by (simp add: div_less_iff_less_mult)
  then have m: "n div 4096 mod 16 = n div 4096"
    by simp
  from 1 2 3 show ?thesis
    unfolding m by linarith
qed

lemma surrogate_bounds:
  fixes c :: nat
  assumes "0x10000 \<le> c" and "c < 0x110000"
  shows "(c - 0x10000) div 1024 mod 1024 < 1024"
    and "(c - 0x10000) mod 1024 < 1024"
    and "0x10000 + (c - 0x10000) div 1024 mod 1024 * 1024 + (c - 0x10000) mod 1024 = c"
proof -
  from assms have "c - 0x10000 < 1024 * 1024" by linarith
  then have "(c - 0x10000) div 1024 < 1024"
    by (simp add: div_less_iff_less_mult)
  then have m: "(c - 0x10000) div 1024 mod 1024 = (c - 0x10000) div 1024"
    by simp
  show "(c - 0x10000) div 1024 mod 1024 < 1024" "(c - 0x10000) mod 1024 < 1024"
    by simp_all
  have "(c - 0x10000) div 1024 * 1024 + (c - 0x10000) mod 1024 = c - 0x10000"
    by (rule div_mult_mod_eq)
  with assms(1) show "0x10000 + (c - 0x10000) div 1024 mod 1024 * 1024 + (c - 0x10000) mod 1024 = c"
    unfolding m by linarith
qed

lemma read_hex4_hex4:
  assumes "n < 65536"
  shows "read_hex4 (hex4 n @ r) = Some (n, r)"
proof -
  have "hex_value (hex_digit (n div 4096 mod 16)) = Some (n div 4096 mod 16)"
    "hex_value (hex_digit (n div 256 mod 16)) = Some (n div 256 mod 16)"
    "hex_value (hex_digit (n div 16 mod 16)) = Some (n div 16 mod 16)"
    "hex_value (hex_digit (n mod 16)) = Some (n mod 16)"
    by (simp_all add: hex_value_hex_digit)
  then have "read_hex4 (hex4 n @ r)
      = Some (4096 * (n div 4096 mod 16) + 256 * (n div 256 mod 16) + 16 * (n div 16 mod 16)
              + n mod 16, r)"
    by (simp only: read_hex4_def hex4_def append_Cons append_Nil list.case prod.case option.case)
  then show ?thesis
    by (simp only: hex4_value [OF assms])
qed

lemma ascii_simps:
  "ascii [] = []"
  "ascii (c # s) = of_char c # ascii s"
  by (simp_all add: ascii_def)

lemma surrogate_arith:
  assumes "0x10000 \<le> c" and "c < 0x110000"
  shows "0xD800 + (c - 0x10000) div 1024 mod 1024 < (65536::nat)"
    and "high_surrogate (0xD800 + (c - 0x10000) div 1024 mod 1024)"
    and "\<not> low_surrogate (0xD800 + (c - 0x10000) div 1024 mod 1024)"
    and "0xDC00 + (c - 0x10000) mod 1024 < (65536::nat)"
    and "low_surrogate (0xDC00 + (c - 0x10000) mod 1024)"
    and "0x10000 + (0xD800 + (c - 0x10000) div 1024 mod 1024 - 0xD800) * 1024
           + (0xDC00 + (c - 0x10000) mod 1024 - 0xDC00) = c"
proof -
  note b = surrogate_bounds [OF assms]
  from b(1) show "0xD800 + (c - 0x10000) div 1024 mod 1024 < (65536::nat)"
    by linarith
  from b(1) show "high_surrogate (0xD800 + (c - 0x10000) div 1024 mod 1024)"
    unfolding high_surrogate_def by linarith
  from b(1) show "\<not> low_surrogate (0xD800 + (c - 0x10000) div 1024 mod 1024)"
    unfolding low_surrogate_def by linarith
  from b(2) show "0xDC00 + (c - 0x10000) mod 1024 < (65536::nat)"
    by linarith
  from b(2) show "low_surrogate (0xDC00 + (c - 0x10000) mod 1024)"
    unfolding low_surrogate_def by linarith
  from b(3) show "0x10000 + (0xD800 + (c - 0x10000) div 1024 mod 1024 - 0xD800) * 1024
           + (0xDC00 + (c - 0x10000) mod 1024 - 0xDC00) = c"
    by (simp only: add_diff_cancel_left')
qed

lemma read_low_escape_low:
  assumes "low_surrogate u"
  shows "read_low_escape (0x5C # 0x75 # hex4 u @ r) = Some (u, r)"
proof -
  from assms have "u < 65536" by (simp add: low_surrogate_def)
  from read_hex4_hex4 [OF this] assms show ?thesis
    by (simp add: read_low_escape_def ascii_def)
qed

lemma read_low_escape_not_low:
  assumes "\<not> low_surrogate u" and "u < 65536"
  shows "read_low_escape (0x5C # 0x75 # hex4 u @ r) = None"
  using read_hex4_hex4 [OF assms(2)] assms(1) by (simp add: read_low_escape_def ascii_def)

lemma escape_char_cases:
  obtains (special) "c \<in> set [0x22, 0x5C, 0x08, 0x0C, 0x0A, 0x0D, 0x09]"
   | (plain) "c \<notin> set [0x22, 0x5C, 0x08, 0x0C, 0x0A, 0x0D, 0x09]" "0x20 \<le> c" "c \<le> 0x7E"
       "escape_char c = [c]"
   | (bmp) "c < 0x10000" "escape_char c = 0x5C # 0x75 # hex4 c"
   | (astral) "0x10000 \<le> c"
       "escape_char c = 0x5C # 0x75 # hex4 (0xD800 + (c - 0x10000) div 1024 mod 1024)
           @ 0x5C # 0x75 # hex4 (0xDC00 + (c - 0x10000) mod 1024)"
proof (cases "c \<in> set [0x22, 0x5C, 0x08, 0x0C, 0x0A, 0x0D, 0x09]")
  case True
  then show ?thesis by (rule special)
next
  case n: False
  show ?thesis
  proof (cases "0x20 \<le> c \<and> c \<le> 0x7E")
    case True
    with n show ?thesis by (intro plain) (simp_all add: escape_char_def)
  next
    case p: False
    show ?thesis
    proof (cases "c < 0x10000")
      case True
      with n p show ?thesis by (intro bmp) (simp_all add: escape_char_def ascii_def)
    next
      case False
      with n p show ?thesis by (intro astral) (simp_all add: escape_char_def ascii_def)
    qed
  qed
qed

lemma lex_string_escape_char:
  assumes "c < 0x110000" and "high_surrogate c \<Longrightarrow> read_low_escape r = None"
  shows "lex_string (escape_char c @ r) = cons_char c (lex_string r)"
proof (cases c rule: escape_char_cases)
  case special
  then show ?thesis
    by (auto simp: escape_char_def lex_string.simps unescape_def ascii_def)
next
  case plain
  then show ?thesis
    by (simp add: lex_string.simps)
next
  case bmp
  show ?thesis
  proof (cases "high_surrogate c")
    case True
    with assms(2) bmp read_hex4_hex4 [OF bmp(1), of r] show ?thesis
      by (simp add: lex_string.simps ascii_def)
  next
    case False
    with bmp read_hex4_hex4 [OF bmp(1), of r] show ?thesis
      by (simp add: lex_string.simps ascii_def)
  qed
next
  case astral
  note s = surrogate_arith [OF astral(1) assms(1)]
  have "read_hex4 (hex4 (0xD800 + (c - 0x10000) div 1024 mod 1024)
          @ 0x5C # 0x75 # hex4 (0xDC00 + (c - 0x10000) mod 1024) @ r)
        = Some (0xD800 + (c - 0x10000) div 1024 mod 1024,
                0x5C # 0x75 # hex4 (0xDC00 + (c - 0x10000) mod 1024) @ r)"
    by (rule read_hex4_hex4 [OF s(1)])
  moreover have "read_low_escape (0x5C # 0x75 # hex4 (0xDC00 + (c - 0x10000) mod 1024) @ r)
        = Some (0xDC00 + (c - 0x10000) mod 1024, r)"
    by (rule read_low_escape_low [OF s(5)])
  ultimately show ?thesis
    using s(2) s(6) by (simp add: astral(2) lex_string.simps ascii_def)
qed

lemma read_low_escape_escape_char:
  assumes "c < 0x110000" and "\<not> low_surrogate c"
  shows "read_low_escape (escape_char c @ r) = None"
proof (cases c rule: escape_char_cases)
  case special
  then show ?thesis
    by (auto simp: escape_char_def read_low_escape_def ascii_def)
next
  case plain
  then show ?thesis
    by (simp add: read_low_escape_def split: list.splits)
next
  case bmp
  with read_low_escape_not_low [OF assms(2) bmp(1), of r] show ?thesis
    by simp
next
  case astral
  note s = surrogate_arith [OF astral(1) assms(1)]
  from read_low_escape_not_low [OF s(3) s(1)] show ?thesis
    by (simp add: astral(2))
qed

lemma read_low_escape_quote: "read_low_escape (0x22 # r) = None"
  by (simp add: read_low_escape_def split: list.splits)

lemma lex_string_encode:
  "is_str s \<Longrightarrow> \<not> surrogate_pair_in s \<Longrightarrow>
   lex_string (concat (map escape_char s) @ 0x22 # r) = Some (s, r)"
proof (induction s rule: surrogate_pair_in.induct)
  case (1 a b s)
  then have a: "a < 0x110000" and b: "b < 0x110000" and n: "high_surrogate a \<Longrightarrow> \<not> low_surrogate b"
    and ih: "lex_string (concat (map escape_char (b # s)) @ 0x22 # r) = Some (b # s, r)"
    by (simp_all add: is_str_def)
  have "lex_string (escape_char a @ (concat (map escape_char (b # s)) @ 0x22 # r))
        = cons_char a (lex_string (concat (map escape_char (b # s)) @ 0x22 # r))"
  proof (rule lex_string_escape_char [OF a])
    assume "high_surrogate a"
    then have "\<not> low_surrogate b" by (rule n)
    from read_low_escape_escape_char [OF b this]
    show "read_low_escape (concat (map escape_char (b # s)) @ 0x22 # r) = None"
      by simp
  qed
  with ih show ?case by (simp add: cons_char_def)
next
  case (2 a)
  then have a: "a < 0x110000" by (simp add: is_str_def)
  from lex_string_escape_char [OF a read_low_escape_quote, of r] show ?case
    by (simp add: lex_string.simps cons_char_def)
next
  case 3
  show ?case by (simp add: lex_string.simps)
qed

lemma of_char_less_256: "(of_char c :: nat) < 256"
  by (cases c) simp

lemma is_str_ascii: "is_str (ascii s)"
proof -
  have "(of_char c :: nat) < 0x110000" for c
    using of_char_less_256 [of c] by linarith
  then show ?thesis
    by (simp add: is_str_def ascii_def list_all_iff)
qed

lemma no_surrogate_pair_ascii: "\<not> surrogate_pair_in (ascii s)"
proof (induction s rule: induct_list012)
  case (3 a b s)
  have "\<not> high_surrogate (of_char a)"
    using of_char_less_256 [of a] unfolding high_surrogate_def by linarith
  with 3 show ?case by (simp add: ascii_def)
qed (simp_all add: ascii_def)

lemma digits_of_decimal: "list_all json_digit (digits_of n)"
proof (induction n rule: digits_of.induct)
  case (1 n)
  show ?case
  proof (cases "n < 10")
    case True
    then show ?thesis by (simp add: digits_of.simps [of n] json_digit_def)
  next
    case False
    have "n mod 10 < 10" by simp
    then have "json_digit (0x30 + n mod 10)"
      unfolding json_digit_def by linarith
    with False 1 show ?thesis by (simp add: digits_of.simps [of n])
  qed
qed

lemma digits_of_nonempty: "digits_of n \<noteq> []"
  by (simp add: digits_of.simps [of n])

lemma digits_of_value: "foldl (\<lambda>a c. 10 * a + int (c - 0x30)) 0 (digits_of n) = int n"
proof (induction n rule: digits_of.induct)
  case (1 n)
  show ?case
  proof (cases "n < 10")
    case True
    then show ?thesis by (simp add: digits_of.simps [of n])
  next
    case False
    with 1 have "foldl (\<lambda>a c. 10 * a + int (c - 0x30)) 0 (digits_of (n div 10)) = int (n div 10)"
      by simp
    with False show ?thesis
      by (simp add: digits_of.simps [of n] zdiv_int zmod_int)
  qed
qed

lemma digits_of_leading: "0 < n \<Longrightarrow> take 1 (digits_of n) \<noteq> [0x30]"
proof (induction n rule: digits_of.induct)
  case (1 n)
  show ?case
  proof (cases "n < 10")
    case True
    with "1.prems" show ?thesis by (simp add: digits_of.simps [of n])
  next
    case False
    then have "0 < n div 10" by simp
    with False 1 have "take 1 (digits_of (n div 10)) \<noteq> [0x30]" by simp
    moreover have "take 1 (digits_of (n div 10) @ [0x30 + n mod 10]) = take 1 (digits_of (n div 10))"
      using digits_of_nonempty [of "n div 10"] by (cases "digits_of (n div 10)") simp_all
    ultimately show ?thesis using False by (simp add: digits_of.simps [of n])
  qed
qed

lemma digits_of_no_leading_zero:
  "\<not> (1 < length (digits_of n) \<and> take 1 (digits_of n) = [0x30])"
proof (cases "n = 0")
  case True
  then show ?thesis by (simp add: digits_of.simps [of 0])
next
  case False
  then show ?thesis using digits_of_leading [of n] by simp
qed

lemma length_digits_of_le: "n < 10 ^ k \<Longrightarrow> 0 < k \<Longrightarrow> length (digits_of n) \<le> k"
proof (induction n arbitrary: k rule: digits_of.induct)
  case (1 n)
  show ?case
  proof (cases "n < 10")
    case True
    with "1.prems" show ?thesis by (simp add: digits_of.simps [of n])
  next
    case False
    from "1.prems" obtain j where k: "k = Suc j" by (cases k) auto
    with False "1.prems" have j: "0 < j" by (cases j) auto
    from "1.prems" k have "n div 10 < 10 ^ j"
      by (simp add: div_less_iff_less_mult mult.commute)
    from "1.IH" [OF False this j] False k show ?thesis
      by (simp add: digits_of.simps [of n])
  qed
qed

lemma length_digits_of_gt: "10 ^ k \<le> n \<Longrightarrow> k < length (digits_of n)"
proof (induction n arbitrary: k rule: digits_of.induct)
  case (1 n)
  show ?case
  proof (cases k)
    case 0
    then show ?thesis using digits_of_nonempty [of n] by simp
  next
    case (Suc j)
    with "1.prems" have ge: "10 * 10 ^ j \<le> n" by simp
    have "(1::nat) \<le> 10 ^ j" by simp
    with ge have n: "\<not> n < 10" by linarith
    from ge have "10 ^ j \<le> n div 10"
      by (simp add: less_eq_div_iff_mult_less_eq mult.commute)
    from "1.IH" [OF n this] n Suc show ?thesis
      by (simp add: digits_of.simps [of n])
  qed
qed

lemma int_repr_Inr:
  assumes "\<bar>i\<bar> < 10 ^ int_max_str_digits"
  shows "int_repr i = Inr (if i < 0 then 0x2D # digits_of (nat \<bar>i\<bar>) else digits_of (nat \<bar>i\<bar>))"
proof -
  from assms have "int (nat \<bar>i\<bar>) < int (10 ^ int_max_str_digits)"
    by simp
  then have "nat \<bar>i\<bar> < 10 ^ int_max_str_digits"
    by (simp only: of_nat_less_iff)
  moreover have "0 < int_max_str_digits"
    by (simp add: int_max_str_digits_def)
  ultimately have "length (digits_of (nat \<bar>i\<bar>)) \<le> int_max_str_digits"
    by (rule length_digits_of_le)
  then show ?thesis
    by (simp add: int_repr_def Let_def)
qed

lemma int_repr_Inl:
  assumes "10 ^ int_max_str_digits \<le> \<bar>i\<bar>"
  shows "int_repr i = Inl ValueError"
proof -
  from assms have "int (10 ^ int_max_str_digits) \<le> int (nat \<bar>i\<bar>)"
    by simp
  then have "10 ^ int_max_str_digits \<le> nat \<bar>i\<bar>"
    by (simp only: of_nat_le_iff)
  then have "int_max_str_digits < length (digits_of (nat \<bar>i\<bar>))"
    by (rule length_digits_of_gt)
  then show ?thesis
    by (simp add: int_repr_def Let_def)
qed

lemma takeWhile_digits:
  "number_ends r \<Longrightarrow> takeWhile json_digit (digits_of n @ r) = digits_of n
     \<and> dropWhile json_digit (digits_of n @ r) = r"
proof -
  assume e: "number_ends r"
  have all: "\<forall>c \<in> set (digits_of n). json_digit c"
    using digits_of_decimal [of n] by (simp add: list_all_iff)
  from e have "takeWhile json_digit r = []" "dropWhile json_digit r = r"
    by (cases r; simp add: number_ends_def)+
  with all show ?thesis
    by (simp add: takeWhile_append2 dropWhile_append2)
qed

lemma lex_digits_digits_of:
  "number_ends r \<Longrightarrow> lex_digits (digits_of n @ r) = Some (int n, r)"
proof -
  assume e: "number_ends r"
  from e have t: "take 1 r \<notin> set [ascii ''.'', ascii ''e'', ascii ''E'']"
    by (cases r) (auto simp: number_ends_def ascii_def)
  have z: "ascii ''0'' = [0x30]"
    by (simp add: ascii_def)
  show ?thesis
    unfolding lex_digits_def Let_def z
    using takeWhile_digits [OF e, of n] t digits_of_nonempty [of n] digits_of_no_leading_zero [of n]
    by (simp add: digits_of_value)
qed

lemma digits_of_head: "\<exists>d ds. digits_of n = d # ds \<and> json_digit d"
proof -
  obtain d ds where d: "digits_of n = d # ds"
    using digits_of_nonempty [of n] by (cases "digits_of n") auto
  with digits_of_decimal [of n] show ?thesis by simp
qed

lemma lex_ws [simp]: "json_ws c \<Longrightarrow> lex (c # r) = lex r"
  by (simp add: lex.simps)

lemma lex_spaces [simp]: "lex (replicate k 0x20 @ r) = lex r"
  by (induction k) (simp_all add: json_ws_def)

lemma lex_newline_indent [simp]: "lex (newline_indent i l @ r) = lex r"
  by (simp add: newline_indent_def json_ws_def)

lemma ascii_punct:
  "ascii ''{'' = [0x7B]" "ascii ''}'' = [0x7D]" "ascii ''['' = [0x5B]" "ascii '']'' = [0x5D]"
  "ascii '','' = [0x2C]" "ascii '': '' = [0x3A, 0x20]" "ascii ''[]'' = [0x5B, 0x5D]"
  by (simp_all add: ascii_def)

lemma lex_punct [simp]:
  "lex (0x7B # r) = cons_token LBrace (lex r)"
  "lex (0x7D # r) = cons_token RBrace (lex r)"
  "lex (0x5B # r) = cons_token LBracket (lex r)"
  "lex (0x5D # r) = cons_token RBracket (lex r)"
  "lex (0x2C # r) = cons_token Comma (lex r)"
  "lex (0x3A # r) = cons_token Colon (lex r)"
  "lex (0x20 # r) = lex r"
  by (simp_all add: lex.simps json_ws_def ascii_def)

lemma lex_null [simp]: "lex (ascii ''null'' @ r) = cons_token TNull (lex r)"
  by (simp add: lex.simps json_ws_def json_digit_def ascii_def)

lemma lex_str:
  "is_str s \<Longrightarrow> \<not> surrogate_pair_in s \<Longrightarrow>
   lex (encode_basestring_ascii s @ r) = cons_token (TStr s) (lex r)"
  by (simp add: encode_basestring_ascii_def lex.simps json_ws_def ascii_def lex_string_encode)

lemma lex_key [simp]:
  "lex (encode_basestring_ascii (ascii k) @ r) = cons_token (TStr (ascii k)) (lex r)"
  by (rule lex_str [OF is_str_ascii no_surrogate_pair_ascii])

lemma lex_number_digits:
  assumes "number_ends r"
  shows "lex_number (digits_of n @ r) = Some (int n, r)"
    and "lex_number (0x2D # digits_of n @ r) = Some (- int n, r)"
proof -
  obtain d ds where d: "digits_of n = d # ds" "json_digit d"
    using digits_of_head by blast
  then have "d \<noteq> 0x2D"
    by (auto simp: json_digit_def)
  with d(1) lex_digits_digits_of [OF assms, of n] show "lex_number (digits_of n @ r) = Some (int n, r)"
    by (simp add: lex_number_def)
  from lex_digits_digits_of [OF assms, of n] show "lex_number (0x2D # digits_of n @ r) = Some (- int n, r)"
    by (simp add: lex_number_def)
qed

lemma lex_int:
  assumes "\<bar>i\<bar> < 10 ^ int_max_str_digits"
  shows "\<exists>t. int_repr i = Inr t \<and> (\<forall>r. number_ends r \<longrightarrow> lex (t @ r) = cons_token (TInt i) (lex r))"
proof -
  let ?n = "nat \<bar>i\<bar>"
  let ?t = "if i < 0 then 0x2D # digits_of ?n else digits_of ?n"
  have t: "int_repr i = Inr ?t"
    by (rule int_repr_Inr [OF assms])
  have l: "lex (?t @ r) = cons_token (TInt i) (lex r)" if e: "number_ends r" for r
  proof (cases "i < 0")
    case True
    then have i: "- int ?n = i"
      by simp
    have "lex_number (0x2D # digits_of ?n @ r) = Some (i, r)"
      using lex_number_digits(2) [OF e, of ?n] unfolding i .
    then have "lex (0x2D # digits_of ?n @ r) = cons_token (TInt i) (lex r)"
      by (simp add: lex.simps(2) [of "0x2D"] json_ws_def ascii_def)
    with True show ?thesis
      by (simp only: if_True append_Cons)
  next
    case False
    then have i: "int ?n = i"
      by simp
    obtain d ds where d: "digits_of ?n = d # ds" "json_digit d"
      using digits_of_head by blast
    from d(2) have n: "\<not> json_ws d" "d \<noteq> 0x22" "[d] \<noteq> ascii ''{''" "[d] \<noteq> ascii ''}''"
      "[d] \<noteq> ascii ''[''" "[d] \<noteq> ascii '']''" "[d] \<noteq> ascii '',''" "[d] \<noteq> ascii '':''"
      by (simp_all add: json_ws_def json_digit_def ascii_def)
    have "lex_number (digits_of ?n @ r) = Some (i, r)"
      using lex_number_digits(1) [OF e, of ?n] unfolding i .
    then have "lex_number (d # ds @ r) = Some (i, r)"
      unfolding d(1) append_Cons .
    with n d(2) have "lex (d # ds @ r) = cons_token (TInt i) (lex r)"
      by (simp add: lex.simps(2) [of d])
    with False show ?thesis
      by (simp only: if_False d(1) append_Cons)
  qed
  show ?thesis
  proof (intro exI [of _ ?t] conjI allI impI)
    show "int_repr i = Inr ?t" by (rule t)
  next
    fix r assume "number_ends r"
    then show "lex (?t @ r) = cons_token (TInt i) (lex r)" by (rule l)
  qed
qed

lemma number_ends_comma [simp]: "number_ends (0x2C # r)"
  by (simp add: number_ends_def json_digit_def ascii_def)

lemma cons_token_append_tokens:
  "cons_token t res = append_tokens [t] res"
  "append_tokens ts (append_tokens us res) = append_tokens (ts @ us) res"
  by (simp_all add: cons_token_def append_tokens_def split: option.splits)

lemma lex_listing_dict:
  assumes "serializable l"
  shows "\<exists>t. dumps_indent 4 lvl (listing_dict l) = Inr t
           \<and> (\<forall>r. lex (t @ r) = append_tokens (listing_tokens l) (lex r))"
proof -
  from assms obtain p where p: "int_repr (price l) = Inr p"
    and lp: "\<And>r. lex (p @ 0x2C # r) = cons_token (TInt (price l)) (cons_token Comma (lex r))"
    using lex_int [of "price l"] by (auto simp: serializable_def)
  from assms have s: "\<And>r. lex (encode_basestring_ascii (image_url l) @ r) = cons_token (TStr (image_url l)) (lex r)"
    "\<And>r. lex (encode_basestring_ascii (title l) @ r) = cons_token (TStr (title l)) (lex r)"
    "\<And>r. lex (encode_basestring_ascii (post_url l) @ r) = cons_token (TStr (post_url l)) (lex r)"
    "\<And>r. lex (encode_basestring_ascii (location l) @ r) = cons_token (TStr (location l)) (lex r)"
    by (simp_all add: serializable_def listing_strs_def lex_str)
  show ?thesis
  proof (cases "description l")
    case None
    then show ?thesis
      by (simp add: listing_dict_def listing_tokens_def and_then_def p lp s ascii_punct
          cons_token_append_tokens)
  next
    case (Some d)
    with assms have "\<And>r. lex (encode_basestring_ascii d @ r) = cons_token (TStr d) (lex r)"
      by (simp add: serializable_def listing_strs_def lex_str)
    with Some show ?thesis
      by (simp add: listing_dict_def listing_tokens_def and_then_def p lp s ascii_punct
          cons_token_append_tokens)
  qed
qed


lemma lex_join_listings:
  "ls \<noteq> [] \<Longrightarrow> list_all serializable ls \<Longrightarrow>
   \<exists>items. sequence (map (dumps_indent 4 lvl) (map listing_dict ls)) = Inr items
     \<and> lex (join (0x2C # newline_indent 4 lvl) items @ newline_indent 4 0 @ [0x5D])
         = Some (listings_tokens ls)"
proof (induction ls rule: listings_tokens.induct)
  case 1
  then show ?case by simp
next
  case (2 l)
  then have "serializable l" by simp
  from lex_listing_dict [OF this, of lvl] obtain t
    where t: "dumps_indent 4 lvl (listing_dict l) = Inr t"
      and lt: "\<And>r. lex (t @ r) = append_tokens (listing_tokens l) (lex r)"
    by blast
  show ?case
    by (simp add: t lt and_then_def lex.simps(1) cons_token_def append_tokens_def)
next
  case (3 l k ls)
  then have "serializable l" by simp
  from lex_listing_dict [OF this, of lvl] obtain t
    where t: "dumps_indent 4 lvl (listing_dict l) = Inr t"
      and lt: "\<And>r. lex (t @ r) = append_tokens (listing_tokens l) (lex r)"
    by blast
  from 3 obtain items
    where i: "sequence (map (dumps_indent 4 lvl) (map listing_dict (k # ls))) = Inr items"
      and li: "lex (join (0x2C # newline_indent 4 lvl) items @ newline_indent 4 0 @ [0x5D])
                = Some (listings_tokens (k # ls))"
    by auto
  from i obtain x xs where x: "items = x # xs"
    by (cases items) (auto simp: and_then_def split: sum.splits)
  have "sequence (map (dumps_indent 4 lvl) (map listing_dict (l # k # ls))) = Inr (t # items)"
    using i by (simp add: t and_then_def)
  moreover have "lex (join (0x2C # newline_indent 4 lvl) (t # items) @ newline_indent 4 0 @ [0x5D])
                = Some (listings_tokens (l # k # ls))"
    using li by (simp add: x lt cons_token_def append_tokens_def)
  ultimately show ?case
    by blast
qed

lemma lex_listings_to_json:
  assumes "list_all serializable ls"
  shows "\<exists>t. listings_to_json ls = Inr t \<and> lex t = Some (LBracket # listings_tokens ls)"
proof (cases ls)
  case Nil
  then show ?thesis
    by (simp add: listings_to_json_def ascii_punct lex.simps(1) cons_token_def)
next
  case (Cons l ls')
  then have "ls \<noteq> []" by simp
  from lex_join_listings [OF this assms, of 1] obtain items
    where i: "sequence (map (dumps_indent 4 1) (map listing_dict ls)) = Inr items"
      and li: "lex (join (0x2C # newline_indent 4 1) items @ newline_indent 4 0 @ [0x5D])
                = Some (listings_tokens ls)"
    by blast
  from i Cons have "listings_to_json ls
      = Inr (0x5B # newline_indent 4 1 @ join (0x2C # newline_indent 4 1) items
                @ newline_indent 4 0 @ [0x5D])"
    by (simp add: listings_to_json_def and_then_def ascii_punct)
  moreover have "lex (0x5B # newline_indent 4 1 @ join (0x2C # newline_indent 4 1) items
                @ newline_indent 4 0 @ [0x5D]) = Some (LBracket # listings_tokens ls)"
    using li by (simp add: cons_token_def)
  ultimately show ?thesis
    by simp
qed

lemma parse_listing_tokens_Suc:
  "parse_value (Suc (Suc (Suc (Suc (Suc (Suc (Suc (Suc k)))))))) (listing_tokens l @ ts)
     = Some (listing_dict l, ts)"
  by (cases "description l") (simp_all add: listing_tokens_def listing_dict_def)

lemma parse_listing_tokens:
  assumes "8 \<le> n"
  shows "parse_value n (listing_tokens l @ ts) = Some (listing_dict l, ts)"
proof -
  have "n = Suc (Suc (Suc (Suc (Suc (Suc (Suc (Suc (n - 8))))))))"
    using assms by arith
  then show ?thesis
    using parse_listing_tokens_Suc [of "n - 8" l ts] by simp
qed

lemma listing_tokens_head: "\<exists>us. listing_tokens l = LBrace # us"
  by (simp add: listing_tokens_def)

lemma length_listing_tokens: "length (listing_tokens l) = 25"
  by (simp add: listing_tokens_def)

lemma length_listings_tokens: "ls \<noteq> [] \<Longrightarrow> length (listings_tokens ls) = 26 * length ls"
  by (induction ls rule: listings_tokens.induct) (simp_all add: length_listing_tokens)

lemma parse_listings_tokens:
  "ls \<noteq> [] \<Longrightarrow> length ls + 9 \<le> n \<Longrightarrow>
   parse_elements n (listings_tokens ls @ ts) = Some (map listing_dict ls, ts)"
proof (induction ls arbitrary: n rule: listings_tokens.induct)
  case 1
  then show ?case by simp
next
  case (2 l)
  then obtain m where n: "n = Suc m" and m: "8 \<le> m"
    by (cases n) auto
  show ?case
    by (simp add: n parse_listing_tokens [OF m])
next
  case (3 l k ls)
  then obtain m where n: "n = Suc m" and m: "8 \<le> m" and m': "length (k # ls) + 9 \<le> m"
    by (cases n) auto
  have "parse_elements m (listings_tokens (k # ls) @ ts) = Some (map listing_dict (k # ls), ts)"
    by (rule "3.IH") (use m' in simp_all)
  then show ?case
    by (simp add: n parse_listing_tokens [OF m])
qed

lemma parse_listings:
  "parse_value (2 * length (LBracket # listings_tokens ls)) (LBracket # listings_tokens ls)
     = Some (JArr (map listing_dict ls), [])"
proof (cases "ls = []")
  case True
  then show ?thesis
    by (simp add: numeral_eq_Suc)
next
  case False
  have "\<exists>us. listings_tokens ls = LBrace # us"
  proof (cases ls rule: listings_tokens.cases)
    case 1
    with False show ?thesis by simp
  next
    case (2 l)
    then show ?thesis using listing_tokens_head [of l] by auto
  next
    case (3 l k ls')
    then show ?thesis using listing_tokens_head [of l] by auto
  qed
  then obtain us where us: "listings_tokens ls = LBrace # us" ..
  let ?n = "2 * length (LBracket # listings_tokens ls)"
  have len: "?n = Suc (Suc (52 * length ls))"
    using length_listings_tokens [OF False] by simp
  have "length ls + 9 \<le> Suc (52 * length ls)"
    using False by (cases ls) simp_all
  from parse_listings_tokens [OF False this, of "[]"]
  show ?thesis
    unfolding len by (simp add: us)
qed

lemma round_trip_serializable:
  assumes "list_all serializable ls"
  shows "round_trip ls = Inr (Some (JArr (map listing_dict ls)))"
proof -
  from lex_listings_to_json [OF assms] obtain t
    where t: "listings_to_json ls = Inr t" and l: "lex t = Some (LBracket # listings_tokens ls)"
    by blast
  have "loads t = Some (JArr (map listing_dict ls))"
    unfolding loads_def l using parse_listings [of ls] by simp
  with t show ?thesis
    by (simp add: round_trip_def and_then_def)
qed

lemma small_price:
  fixes p :: int
  assumes "\<bar>p\<bar> < 10 ^ 4"
  shows "\<bar>p\<bar> < 10 ^ int_max_str_digits"
proof -
  have "(10::int) ^ 4 \<le> 10 ^ int_max_str_digits"
    by (rule power_increasing) (simp_all add: int_max_str_digits_def)
  with assms show ?thesis by linarith
qed

text \<open>
  The listings that the extraction produces have strings below U+0100, so no
  surrogate: they are serializable as soon as the price is within the limit.
\<close>

lemma serializable_code_points:
  "\<bar>price l\<bar> < 10 ^ int_max_str_digits \<Longrightarrow> serializable (code_points l)"
  by (cases "description l")
     (simp_all add: serializable_def code_points_def listing_strs_def is_str_ascii
        no_surrogate_pair_ascii)

lemma encode_surrogate_pair:
  "encode_basestring_ascii [0xD83D, 0xDE00] = encode_basestring_ascii [0x1F600]"
  by (simp add: encode_basestring_ascii_def escape_char_def hex4_def)

lemma round_trip_paired:
  "round_trip [paired] = Inr (Some (JArr [listing_dict (paired\<lparr>title := [0x1F600]\<rparr>)]))"
proof -
  have "\<bar>price paired\<bar> < 10 ^ int_max_str_digits"
    by (rule small_price) (simp add: paired_def)
  moreover have "is_str [0x1F600]"
    by (simp add: is_str_def)
  ultimately have "serializable (paired\<lparr>title := [0x1F600]\<rparr>)"
    by (simp add: serializable_def listing_strs_def paired_def is_str_ascii no_surrogate_pair_ascii)
  then have "round_trip [paired\<lparr>title := [0x1F600]\<rparr>]
               = Inr (Some (JArr (map listing_dict [paired\<lparr>title := [0x1F600]\<rparr>])))"
    by (intro round_trip_serializable) simp
  moreover have "listing_dict paired
      = JObj [(ascii ''image_url'', JStr (image_url paired)), (ascii ''title'', JStr [0xD83D, 0xDE00]),
           (ascii ''price'', JInt (price paired)), (ascii ''post_url'', JStr (post_url paired)),
           (ascii ''location'', JStr (location paired)), (ascii ''description'', JNull)]"
    by (simp add: listing_dict_def paired_def)
  moreover have "listing_dict (paired\<lparr>title := [0x1F600]\<rparr>)
      = JObj [(ascii ''image_url'', JStr (image_url paired)), (ascii ''title'', JStr [0x1F600]),
           (ascii ''price'', JInt (price paired)), (ascii ''post_url'', JStr (post_url paired)),
           (ascii ''location'', JStr (location paired)), (ascii ''description'', JNull)]"
    by (simp add: listing_dict_def paired_def)
  ultimately show ?thesis
    by (simp add: round_trip_def listings_to_json_def encode_surrogate_pair)
qed

lemma listings_to_json_overlong: "listings_to_json [overlong] = Inl ValueError"
proof -
  have "int_repr (10 ^ int_max_str_digits) = Inl ValueError"
    by (rule int_repr_Inl) simp
  then show ?thesis
    by (simp add: listings_to_json_def listing_dict_def overlong_def and_then_def)
qed

text \<open>
  Claim C8 as stated, for every list of listings, does not hold. The title of \<open>paired\<close>
  is the two code points U+D83D and U+DE00; the writer escapes each of them, the reader
  takes the two escapes for one code point, and the title read back is U+1F600 alone.
  And for \<open>overlong\<close>, whose price has more than \<open>int_max_str_digits\<close> digits, the writer
  raises \<open>ValueError\<close> and there is no text to read.
\<close>

theorem round_trip_changes_surrogate_pair:
  "round_trip [paired] =
     Inr (Some (JArr
       [JObj [(ascii ''image_url'', JStr (ascii ''https://scontent.xx.fbcdn.net/mug.jpg'')),
              (ascii ''title'', JStr [0x1F600]),
              (ascii ''price'', JInt 5),
              (ascii ''post_url'', JStr (ascii ''https://www.facebook.com/marketplace/item/9'')),
              (ascii ''location'', JStr (ascii ''Toronto, ON'')),
              (ascii ''description'', JNull)]]))
   \<and> title paired = [0xD83D, 0xDE00]
   \<and> round_trip [paired] \<noteq> Inr (Some (JArr [listing_dict paired]))
   \<and> round_trip [overlong] = Inl ValueError"
proof -
  have a: "round_trip [paired] =
     Inr (Some (JArr
       [JObj [(ascii ''image_url'', JStr (ascii ''https://scontent.xx.fbcdn.net/mug.jpg'')),
              (ascii ''title'', JStr [0x1F600]),
              (ascii ''price'', JInt 5),
              (ascii ''post_url'', JStr (ascii ''https://www.facebook.com/marketplace/item/9'')),
              (ascii ''location'', JStr (ascii ''Toronto, ON'')),
              (ascii ''description'', JNull)]]))"
    unfolding round_trip_paired by (simp add: listing_dict_def paired_def)
  have b: "title paired = [0xD83D, 0xDE00]"
    by (simp add: paired_def)
  have c: "round_trip [paired] \<noteq> Inr (Some (JArr [listing_dict paired]))"
    unfolding round_trip_paired by (simp add: listing_dict_def paired_def)
  have d: "round_trip [overlong] = Inl ValueError"
    by (simp add: round_trip_def listings_to_json_overlong and_then_def)
  show ?thesis
    by (rule conjI [OF a conjI [OF b conjI [OF c d]]])
qed

text \<open>
  Claim C8, amended. For every list of listings whose prices have at most
  \<open>int_max_str_digits\<close> (4300) digits and whose strings have no surrogate pair, that is no
  high surrogate followed at once by a low surrogate, reading the text that
  \<open>listings_to_json\<close> writes gives a list of as many dictionaries, in the same order, each
  with exactly the keys \<open>image_url\<close>, \<open>title\<close>, \<open>price\<close>, \<open>post_url\<close>, \<open>location\<close>,
  \<open>description\<close> in this order and with the values of the listing; an unset description
  is read back as \<open>null\<close>, not as the string \<open>None\<close>.
\<close>

theorem round_trip_listings:
  assumes "\<forall>l \<in> set ls. \<bar>price l\<bar> < 10 ^ int_max_str_digits"
    and "\<forall>l \<in> set ls. \<forall>s \<in> set (listing_strs l). is_str s \<and> \<not> surrogate_pair_in s"
  shows "round_trip ls =
     Inr (Some (JArr (map (\<lambda>l. JObj [(ascii ''image_url'', JStr (image_url l)),
                                       (ascii ''title'', JStr (title l)),
                                       (ascii ''price'', JInt (price l)),
                                       (ascii ''post_url'', JStr (post_url l)),
                                       (ascii ''location'', JStr (location l)),
                                       (ascii ''description'',
                                          (case description l of None \<Rightarrow> JNull | Some d \<Rightarrow> JStr d))])
                          ls)))"
proof -
  from assms have "list_all serializable ls"
    by (simp add: serializable_def list_all_iff)
  then have "round_trip ls = Inr (Some (JArr (map listing_dict ls)))"
    by (rule round_trip_serializable)
  moreover have "listing_dict = (\<lambda>l. JObj [(ascii ''image_url'', JStr (image_url l)),
                                       (ascii ''title'', JStr (title l)),
                                       (ascii ''price'', JInt (price l)),
                                       (ascii ''post_url'', JStr (post_url l)),
                                       (ascii ''location'', JStr (location l)),
                                       (ascii ''description'',
                                          (case description l of None \<Rightarrow> JNull | Some d \<Rightarrow> JStr d))])"
    by (rule ext) (simp add: listing_dict_def)
  ultimately show ?thesis
    by simp
qed

theorem round_trip_listings_witness:
  "round_trip [code_points bike_listing, postcard] =
     Inr (Some (JArr
       [JObj [(ascii ''image_url'', JStr (ascii ''https://scontent.xx.fbcdn.net/bike.jpg'')),
              (ascii ''title'', JStr (ascii ''Mountain bike'')),
              (ascii ''price'', JInt 500),
              (ascii ''post_url'', JStr (ascii ''https://www.facebook.com/marketplace/item/42'')),
              (ascii ''location'', JStr (ascii ''Toronto, ON'')),
              (ascii ''description'', JNull)],
        JObj [(ascii ''image_url'', JStr (ascii ''https://scontent.xx.fbcdn.net/card.jpg'')),
              (ascii ''title'',
                 JStr (ascii ''Carte '' @ [0x22, 0xE9, 0x2019, 0x1F600, 0x22, 0x0A, 0xDE00, 0xD83D])),
              (ascii ''price'', JInt (- 3)),
              (ascii ''post_url'', JStr (ascii ''https://www.facebook.com/marketplace/item/10'')),
              (ascii ''location'', JStr [0x6771, 0x4EAC]),
              (ascii ''description'', JStr (ascii ''None''))]]))"
proof -
  have p: "(500::int) < 10 ^ int_max_str_digits" "(3::int) < 10 ^ int_max_str_digits"
    using small_price [of 500] small_price [of 3] by simp_all
  have s: "is_str (ascii ''Carte '' @ [0x22, 0xE9, 0x2019, 0x1F600, 0x22, 0x0A, 0xDE00, 0xD83D])"
    "\<not> surrogate_pair_in (ascii ''Carte '' @ [0x22, 0xE9, 0x2019, 0x1F600, 0x22, 0x0A, 0xDE00, 0xD83D])"
    "is_str [0x6771, 0x4EAC]"
    by (simp_all add: is_str_def ascii_def high_surrogate_def low_surrogate_def)
  show ?thesis
    using round_trip_listings [of "[code_points bike_listing, postcard]"]
    by (simp add: code_points_def bike_listing_def postcard_def listing_strs_def p s is_str_ascii
        no_surrogate_pair_ascii high_surrogate_def low_surrogate_def)
qed

end
